theory Spec2Isabelle
  imports Complex_Main "HOL-Library.Multiset"
begin

section \<open>Values and errors\<close>

text \<open>
  The arrays of \<^verbatim>\<open>compute.py\<close> hold IEEE doubles. They are modelled by exact reals, with
  the non-finite results of a division written out where the source can meet them:
  a quotient \<open>0/0\<close> is \<open>NaN\<close>, a quotient \<open>x/0\<close> with \<open>x \<noteq> 0\<close> is an infinity.  Rounding
  is not modelled.
\<close>

datatype fl = Fin real | PInf | NInf | NaN

text \<open>The exceptions of the source and of the library routines it calls: the exception
  class, and for \<^verbatim>\<open>ValueError\<close> what the message is about.\<close>

datatype reason =
    InconsistentLength
  | BelowInterpolationRange
  | AboveInterpolationRange
  | TooFewEntries
  | EmptySequence
  | ShapeMismatch

datatype error = IndexError | ValueError reason | TypeError | AttributeError

definition bind :: "error + 'a \<Rightarrow> ('a \<Rightarrow> error + 'b) \<Rightarrow> error + 'b" where
  "bind m f = (case m of Inl e \<Rightarrow> Inl e | Inr x \<Rightarrow> f x)"

section \<open>Duplicate-recall suppression (\<^verbatim>\<open>Main._evaluate_and_plot\<close>, lines 169--183)\<close>

text \<open>\<^verbatim>\<open>np.argsort(recalls)\<close>: the indices of the array in an order that sorts it.  numpy's
  default sort is an insertion sort on short arrays and an introsort on long ones; the
  order it gives to equal elements is not documented.  \<open>argsort\<close> is the stable
  representative; \<open>is_argsort\<close> is what every sorting routine guarantees.\<close>

definition argsort :: "real list \<Rightarrow> nat list" where
  "argsort a = sort_key (\<lambda>i. a ! i) [0..<length a]"

definition is_argsort :: "real list \<Rightarrow> nat list \<Rightarrow> bool" where
  "is_argsort a idx \<longleftrightarrow> mset idx = mset [0..<length a] \<and> sorted (map (\<lambda>i. a ! i) idx)"

text \<open>\<^verbatim>\<open>np.unique(recalls[idx_sort], return_index=True)\<close> gives the position \<open>idx_start\<close>
  at which each distinct value of the sorted array starts, and
  \<^verbatim>\<open>np.split(idx_sort, idx_start[1:])\<close> cuts \<open>idx_sort\<close> at these positions: the pieces are
  the maximal runs of indices whose recall is equal.\<close>

function split_at_unique :: "real list \<Rightarrow> nat list \<Rightarrow> nat list list" where
  "split_at_unique a [] = []"
| "split_at_unique a (i # idx) =
     (i # takeWhile (\<lambda>j. a ! j = a ! i) idx) # split_at_unique a (dropWhile (\<lambda>j. a ! j = a ! i) idx)"
  by pat_completeness auto
termination
  by (relation "measure (\<lambda>(a, idx). length idx)") (auto simp: length_dropWhile_le le_imp_less_Suc)

text \<open>\<^verbatim>\<open>list(filter(lambda x: x.size > 1, ...))\<close>\<close>

definition duplicates_of :: "real list \<Rightarrow> nat list \<Rightarrow> nat list list" where
  "duplicates_of recalls idx_sort = filter (\<lambda>x. length x > 1) (split_at_unique recalls idx_sort)"

text \<open>\<^verbatim>\<open>sorted(duplicate, key=lambda idx: precisions[idx])[:-1]\<close> for every group, then
  \<^verbatim>\<open>np.concatenate\<close>.  Python's \<^verbatim>\<open>sorted\<close> is stable, as \<open>sort_key\<close> is.\<close>

definition to_delete_of :: "real list \<Rightarrow> nat list list \<Rightarrow> nat list" where
  "to_delete_of precisions duplicates =
     concat (map (\<lambda>duplicate. butlast (sort_key (\<lambda>idx. precisions ! idx) duplicate)) duplicates)"

text \<open>\<^verbatim>\<open>np.delete(a, obj)\<close>: a new array without the positions in \<open>obj\<close>; a position out of
  range raises \<^verbatim>\<open>IndexError\<close>.\<close>

definition np_delete :: "'a list \<Rightarrow> nat list \<Rightarrow> error + 'a list" where
  "np_delete a obj =
     (if \<exists>i\<in>set obj. length a \<le> i then Inl IndexError
      else Inr (map (\<lambda>i. a ! i) (filter (\<lambda>i. i \<notin> set obj) [0..<length a])))"

text \<open>Lines 172--183 for a given result \<open>idx_sort\<close> of \<^verbatim>\<open>np.argsort(recalls)\<close>.  The key
  \<^verbatim>\<open>precisions[idx]\<close> raises \<^verbatim>\<open>IndexError\<close> on an index beyond \<open>precisions\<close>.\<close>

definition delete_duplicates_with ::
  "nat list \<Rightarrow> real list \<Rightarrow> real list \<Rightarrow> real list \<Rightarrow> error + (real list \<times> real list \<times> real list)" where
  "delete_duplicates_with idx_sort precisions recalls thresholds =
     (let duplicates = duplicates_of recalls idx_sort in
      if duplicates \<noteq> [] then
        if \<exists>idx\<in>set (concat duplicates). length precisions \<le> idx then Inl IndexError
        else
          let to_delete = to_delete_of precisions duplicates in
          bind (np_delete recalls to_delete) (\<lambda>recalls'.
          bind (np_delete precisions to_delete) (\<lambda>precisions'.
          bind (np_delete thresholds to_delete) (\<lambda>thresholds'.
          Inr (precisions', recalls', thresholds'))))
      else Inr (precisions, recalls, thresholds))"

definition delete_duplicates ::
  "real list \<Rightarrow> real list \<Rightarrow> real list \<Rightarrow> error + (real list \<times> real list \<times> real list)" where
  "delete_duplicates precisions recalls thresholds =
     delete_duplicates_with (argsort recalls) precisions recalls thresholds"

text \<open>The positions that survive: every position that is not the last of its group when
  the group is sorted by precision.\<close>

definition kept_indices :: "nat list \<Rightarrow> real list \<Rightarrow> real list \<Rightarrow> nat list" where
  "kept_indices idx_sort precisions recalls =
     filter (\<lambda>i. i \<notin> set (to_delete_of precisions (duplicates_of recalls idx_sort))) [0..<length recalls]"

section \<open>Arithmetic on array elements\<close>

text \<open>\<^verbatim>\<open>a / b\<close> on two finite doubles, with the division warnings silenced.\<close>

definition fdiv :: "real \<Rightarrow> real \<Rightarrow> fl" where
  "fdiv a b = (if b \<noteq> 0 then Fin (a / b) else if a = 0 then NaN else if 0 < a then PInf else NInf)"

fun is_nan :: "fl \<Rightarrow> bool" where
  "is_nan NaN = True"
| "is_nan _ = False"

text \<open>\<^verbatim>\<open>np.isfinite\<close>\<close>

fun isfinite :: "fl \<Rightarrow> bool" where
  "isfinite (Fin _) = True"
| "isfinite _ = False"

text \<open>The comparison \<^verbatim>\<open><=\<close> of doubles: false as soon as one side is not a number.\<close>

fun fl_le :: "fl \<Rightarrow> fl \<Rightarrow> bool" where
  "fl_le NaN _ = False"
| "fl_le _ NaN = False"
| "fl_le NInf _ = True"
| "fl_le _ PInf = True"
| "fl_le (Fin a) (Fin b) = (a \<le> b)"
| "fl_le _ _ = False"

fun fl_neg :: "fl \<Rightarrow> fl" where
  "fl_neg (Fin a) = Fin (- a)"
| "fl_neg PInf = NInf"
| "fl_neg NInf = PInf"
| "fl_neg NaN = NaN"

fun fl_add :: "fl \<Rightarrow> fl \<Rightarrow> fl" where
  "fl_add NaN _ = NaN"
| "fl_add _ NaN = NaN"
| "fl_add (Fin a) (Fin b) = Fin (a + b)"
| "fl_add PInf NInf = NaN"
| "fl_add NInf PInf = NaN"
| "fl_add PInf _ = PInf"
| "fl_add _ PInf = PInf"
| "fl_add NInf _ = NInf"
| "fl_add _ NInf = NInf"

definition fl_sub :: "fl \<Rightarrow> fl \<Rightarrow> fl" where
  "fl_sub a b = fl_add a (fl_neg b)"

text \<open>Division by a positive count.\<close>

fun fl_div_count :: "fl \<Rightarrow> nat \<Rightarrow> fl" where
  "fl_div_count (Fin a) n = fdiv a (real n)"
| "fl_div_count x n = x"

text \<open>\<^verbatim>\<open>a[i]\<close> for a non-negative \<open>i\<close>.\<close>

definition getitem :: "'a list \<Rightarrow> nat \<Rightarrow> error + 'a" where
  "getitem a i = (if i < length a then Inr (a ! i) else Inl IndexError)"

text \<open>An elementwise binary operation on two one-dimensional arrays, with numpy's
  broadcasting: equal lengths, or one side of length one.\<close>

definition broadcast2 :: "('a \<Rightarrow> 'b \<Rightarrow> 'c) \<Rightarrow> 'a list \<Rightarrow> 'b list \<Rightarrow> error + 'c list" where
  "broadcast2 f xs ys =
     (if length xs = length ys then Inr (map2 f xs ys)
      else if length xs = 1 then Inr (map (\<lambda>y. f (hd xs) y) ys)
      else if length ys = 1 then Inr (map (\<lambda>x. f x (hd ys)) xs)
      else Inl (ValueError ShapeMismatch))"

text \<open>\<^verbatim>\<open>2 * precision * recall / (precision + recall)\<close> (lines 185 and 242).\<close>

definition f1_of :: "real \<Rightarrow> real \<Rightarrow> fl" where
  "f1_of precision recall = fdiv (2 * precision * recall) (precision + recall)"

definition f1_array :: "real list \<Rightarrow> real list \<Rightarrow> error + fl list" where
  "f1_array precisions recalls = broadcast2 f1_of precisions recalls"

text \<open>\<^verbatim>\<open>a.argmax()\<close>: numpy scans from the left and moves to a later position only when its
  value is not \<^verbatim>\<open><=\<close> the current maximum; it stops at the first not-a-number.  On an
  empty array it raises \<^verbatim>\<open>ValueError\<close>.\<close>

fun argmax_from :: "fl \<Rightarrow> nat \<Rightarrow> nat \<Rightarrow> fl list \<Rightarrow> nat" where
  "argmax_from mp idx i [] = idx"
| "argmax_from mp idx i (x # xs) =
     (if is_nan mp then idx
      else if \<not> fl_le x mp then argmax_from x i (Suc i) xs
      else argmax_from mp idx (Suc i) xs)"

definition argmax :: "fl list \<Rightarrow> error + nat" where
  "argmax a = (case a of [] \<Rightarrow> Inl (ValueError EmptySequence) | x # xs \<Rightarrow> Inr (argmax_from x 0 1 xs))"

section \<open>The precision-recall curve routine\<close>

text \<open>
  Modelled from the spec: \<^verbatim>\<open>sklearn.metrics.precision_recall_curve\<close> is a library routine
  and not part of the repository.  Section 4.3, step 2: one (precision, recall,
  threshold) triple for every distinct value of the prediction, recall non-increasing as
  the threshold increases, recall \<open>0/0\<close> when the ground truth has no positive, and a final
  point of precision 1 and recall 0 that has no threshold.  The routine stops at the
  lowest threshold at which full recall is reached, and returns the points by increasing
  threshold.
\<close>

text \<open>The number of samples scored at least \<open>s\<close> whose label is \<open>lab\<close>.\<close>

definition count_ge :: "bool \<Rightarrow> bool list \<Rightarrow> real list \<Rightarrow> real \<Rightarrow> nat" where
  "count_ge lab y_true y_score s =
     length (filter (\<lambda>(y, sc). y = lab \<and> s \<le> sc) (zip y_true y_score))"

text \<open>The distinct scores, highest first, with the true and false positives at each.\<close>

definition binary_clf_curve :: "bool list \<Rightarrow> real list \<Rightarrow> nat list \<times> nat list \<times> real list" where
  "binary_clf_curve y_true y_score =
     (let thresholds = rev (sort (remdups y_score)) in
      (map (count_ge False y_true y_score) thresholds,
       map (count_ge True y_true y_score) thresholds,
       thresholds))"

definition precision_recall_curve ::
  "bool list \<Rightarrow> real list \<Rightarrow> error + (real list \<times> fl list \<times> real list)" where
  "precision_recall_curve y_true probas_pred =
     (if length y_true \<noteq> length probas_pred then Inl (ValueError InconsistentLength)
      else if y_true = [] then Inl (ValueError EmptySequence)
      else
        (case binary_clf_curve y_true probas_pred of (fps, tps, thresholds) \<Rightarrow>
          let precision = map2 (\<lambda>tp fp. real tp / (real tp + real fp)) tps fps;
              recall = map (\<lambda>tp. fdiv (real tp) (real (last tps))) tps;
              last_ind = length (takeWhile (\<lambda>tp. tp < last tps) tps)
          in Inr (rev (take (Suc last_ind) precision) @ [1],
                  rev (take (Suc last_ind) recall) @ [Fin 0],
                  rev (take (Suc last_ind) thresholds))))"

section \<open>Metric accumulators and evaluation records\<close>

text \<open>
  Modelled from the spec: the classes of \<^verbatim>\<open>evaluation.segmentation\<close> are imported by
  \<^verbatim>\<open>compute.py\<close> and are not part of the repository.  Section 4.1: an accumulator holds a
  running mean and an observation count, and \<^verbatim>\<open>update(value)\<close> folds one observation into
  the mean by \<open>new_mean = old_mean + (value - old_mean) / new_count\<close>; \<^verbatim>\<open>last()\<close> is the
  most recent observation.
\<close>

record accumulator =
  count :: nat
  mean :: fl
  latest :: "fl option"

definition new_accumulator :: accumulator where
  "new_accumulator = \<lparr> count = 0, mean = Fin 0, latest = None \<rparr>"

definition update :: "accumulator \<Rightarrow> fl \<Rightarrow> accumulator" where
  "update acc v =
     (let n = count acc + 1
      in \<lparr> count = n, mean = fl_add (mean acc) (fl_div_count (fl_sub v (mean acc)) n), latest = Some v \<rparr>)"

definition last_of :: "accumulator \<Rightarrow> fl" where
  "last_of acc = (case latest acc of Some v \<Rightarrow> v | None \<Rightarrow> mean acc)"

text \<open>The probabilistic record (\<^verbatim>\<open>BinaryIntensitySegmentationEvaluation\<close>) with the five
  accumulators \<^verbatim>\<open>_evaluate_and_plot\<close> writes.\<close>

record pred_evaluation =
  f1score :: accumulator
  precision_acc :: accumulator
  recall_acc :: accumulator
  iou :: accumulator
  auc :: accumulator

definition new_pred_evaluation :: pred_evaluation where
  "new_pred_evaluation =
     \<lparr> f1score = new_accumulator, precision_acc = new_accumulator, recall_acc = new_accumulator,
       iou = new_accumulator, auc = new_accumulator \<rparr>"

text \<open>
  What \<^verbatim>\<open>compute_and_update\<close> computes is decided by the absent module; it is a parameter
  of the model: the IoU of two masks, the area under a curve given by its precisions and
  recalls, the named metrics of the binarised record (\<^verbatim>\<open>BinarySegmentationEvaluation\<close>) in
  iteration order, and the F-measure object \<^verbatim>\<open>F()\<close> of \<^verbatim>\<open>Plot.mean_and_std\<close>.
\<close>

record segmentation_lib =
  iou_compute :: "bool list \<Rightarrow> bool list \<Rightarrow> error + fl"
  auc_compute :: "real list \<Rightarrow> real list \<Rightarrow> error + fl"
  binary_metrics :: "(string \<times> (bool list \<Rightarrow> bool list \<Rightarrow> error + fl)) list"
  f_measure :: "real \<Rightarrow> real \<Rightarrow> fl"

text \<open>\<^verbatim>\<open>for metric in bin_eval: metric.compute_and_update(gt, bin_)\<close>\<close>

fun compute_binary :: "(string \<times> (bool list \<Rightarrow> bool list \<Rightarrow> error + fl)) list \<Rightarrow>
    bool list \<Rightarrow> bool list \<Rightarrow> error + (string \<times> accumulator) list" where
  "compute_binary [] gt bin = Inr []"
| "compute_binary ((name, m) # ms) gt bin =
     bind (m gt bin) (\<lambda>v.
     bind (compute_binary ms gt bin) (\<lambda>rest.
     Inr ((name, update new_accumulator v) # rest)))"

text \<open>\<^verbatim>\<open>bin_eval.recall.last()\<close>: the attribute must exist.\<close>

definition metric_last :: "(string \<times> accumulator) list \<Rightarrow> string \<Rightarrow> error + fl" where
  "metric_last bin_eval name =
     (case map_of bin_eval name of None \<Rightarrow> Inl AttributeError | Some acc \<Rightarrow> Inr (last_of acc))"

section \<open>The class \<^verbatim>\<open>Plot\<close>\<close>

record plot =
  recall :: "real list"
  precision :: "real list"
  threshold :: "real list option"
  f1 :: "fl list"
  f1_point :: "(real \<times> real) option"
  bin_point :: "(fl \<times> fl) option"

text \<open>\<^verbatim>\<open>Plot.__init__\<close> (lines 238--253).  \<^verbatim>\<open>if self.recall[0]:\<close> is true for a non-zero
  number.\<close>

definition Plot ::
  "real list \<Rightarrow> real list \<Rightarrow> real list option \<Rightarrow> fl list option \<Rightarrow>
   (real \<times> real) option \<Rightarrow> (fl \<times> fl) option \<Rightarrow> error + plot" where
  "Plot recall0 precision0 threshold0 f10 f1_point0 bin_point0 =
     bind (case f10 of None \<Rightarrow> f1_array precision0 recall0 | Some f \<Rightarrow> Inr f) (\<lambda>f1'.
     if length recall0 < 2 then
       bind (getitem recall0 0) (\<lambda>r0.
       bind (getitem precision0 0) (\<lambda>p0.
       if r0 \<noteq> 0 then
         Inr \<lparr> recall = [0, r0], precision = [0, p0], threshold = threshold0, f1 = f1',
               f1_point = f1_point0, bin_point = bin_point0 \<rparr>
       else
         Inr \<lparr> recall = [0, 1], precision = [p0, 0], threshold = threshold0, f1 = f1',
               f1_point = f1_point0, bin_point = bin_point0 \<rparr>))
     else
       Inr \<lparr> recall = recall0, precision = precision0, threshold = threshold0, f1 = f1',
             f1_point = f1_point0, bin_point = bin_point0 \<rparr>)"

section \<open>\<^verbatim>\<open>Main._evaluate_and_plot\<close> (lines 152--208)\<close>

text \<open>Lines 156--162 on the values.  \<^verbatim>\<open>np.any\<close> of an empty array is false, and the
  assignment to position 0 of an empty array raises \<^verbatim>\<open>IndexError\<close>.\<close>

definition setitem0 :: "'a list \<Rightarrow> 'a \<Rightarrow> error + 'a list" where
  "setitem0 a v = (if a = [] then Inl IndexError else Inr (a[0 := v]))"

definition any_nonzero :: "real list \<Rightarrow> bool" where
  "any_nonzero a = (\<exists>x\<in>set a. x \<noteq> 0)"

definition any_true :: "bool list \<Rightarrow> bool" where
  "any_true a = (\<exists>x\<in>set a. x)"

definition edge_case_pred :: "real list \<Rightarrow> error + real list" where
  "edge_case_pred pred = (if \<not> any_nonzero pred then setitem0 pred (1/2) else Inr pred)"

definition edge_case_bin :: "bool list \<Rightarrow> error + bool list" where
  "edge_case_bin bin = (if \<not> any_true bin then setitem0 bin True else Inr bin)"

text \<open>Lines 164--170: the raw curve, the threshold 1 appended, the non-finite recalls
  replaced by 0.\<close>

definition raw_curve :: "bool list \<Rightarrow> real list \<Rightarrow> error + (real list \<times> real list \<times> real list)" where
  "raw_curve gt pred =
     bind (precision_recall_curve gt pred) (\<lambda>(precisions, recalls, thresholds).
     Inr (precisions,
          map (\<lambda>r. case r of Fin x \<Rightarrow> x | _ \<Rightarrow> 0) recalls,
          thresholds @ [1]))"

text \<open>Lines 164--183: the deduplicated curve of one sample, for a sorting routine \<open>srt\<close> in
  the place of \<^verbatim>\<open>np.argsort\<close>.  What numpy's sort does with equal recalls is not fixed by
  its documentation; a run of the program is a run with some routine that sorts.\<close>

definition dedup_curve_with ::
  "(real list \<Rightarrow> nat list) \<Rightarrow> bool list \<Rightarrow> real list \<Rightarrow> error + (real list \<times> real list \<times> real list)" where
  "dedup_curve_with srt gt pred =
     bind (raw_curve gt pred) (\<lambda>(precisions, recalls, thresholds).
     delete_duplicates_with (srt recalls) precisions recalls thresholds)"

definition dedup_curve :: "bool list \<Rightarrow> real list \<Rightarrow> error + (real list \<times> real list \<times> real list)" where
  "dedup_curve gt pred = dedup_curve_with argsort gt pred"

text \<open>Lines 184--208 on the deduplicated curve.\<close>

definition evaluate_curve ::
  "segmentation_lib \<Rightarrow> real list \<Rightarrow> bool list \<Rightarrow> bool list \<Rightarrow>
   real list \<times> real list \<times> real list \<Rightarrow>
   error + (pred_evaluation \<times> (string \<times> accumulator) list \<times> plot)" where
  "evaluate_curve lib pred bin gt curve =
     (case curve of (precisions, recalls, thresholds) \<Rightarrow>
     bind (f1_array precisions recalls) (\<lambda>f1scores.
     bind (argmax f1scores) (\<lambda>idx.
     bind (getitem f1scores idx) (\<lambda>f1_idx.
     bind (getitem precisions idx) (\<lambda>precision_idx.
     bind (getitem recalls idx) (\<lambda>recall_idx.
     bind (getitem thresholds idx) (\<lambda>threshold_idx.
     bind (iou_compute lib gt (map (\<lambda>x. threshold_idx \<le> x) pred)) (\<lambda>iou_value.
     bind (auc_compute lib precisions recalls) (\<lambda>auc_value.
     bind (compute_binary (binary_metrics lib) gt bin) (\<lambda>bin_eval.
     bind (metric_last bin_eval ''recall'') (\<lambda>bin_recall.
     bind (metric_last bin_eval ''precision'') (\<lambda>bin_precision.
     bind (Plot recalls precisions (Some thresholds) (Some f1scores)
             (Some (recall_idx, precision_idx)) (Some (bin_recall, bin_precision))) (\<lambda>plot.
     Inr (\<lparr> f1score = update new_accumulator f1_idx,
             precision_acc = update new_accumulator (Fin precision_idx),
             recall_acc = update new_accumulator (Fin recall_idx),
             iou = update new_accumulator iou_value,
             auc = update new_accumulator auc_value \<rparr>,
          bin_eval, plot))))))))))))))"

text \<open>Lines 164--208 on the repaired arrays.\<close>

definition evaluate_repaired_with ::
  "(real list \<Rightarrow> nat list) \<Rightarrow> segmentation_lib \<Rightarrow> real list \<Rightarrow> bool list \<Rightarrow> bool list \<Rightarrow>
   error + (pred_evaluation \<times> (string \<times> accumulator) list \<times> plot)" where
  "evaluate_repaired_with srt lib pred bin gt =
     bind (dedup_curve_with srt gt pred) (evaluate_curve lib pred bin gt)"

definition evaluate_repaired ::
  "segmentation_lib \<Rightarrow> real list \<Rightarrow> bool list \<Rightarrow> bool list \<Rightarrow>
   error + (pred_evaluation \<times> (string \<times> accumulator) list \<times> plot)" where
  "evaluate_repaired lib pred bin gt = evaluate_repaired_with argsort lib pred bin gt"

text \<open>The whole function on the values of its three arguments.\<close>

definition evaluate_with ::
  "(real list \<Rightarrow> nat list) \<Rightarrow> segmentation_lib \<Rightarrow> real list \<Rightarrow> bool list \<Rightarrow> bool list \<Rightarrow>
   error + (pred_evaluation \<times> (string \<times> accumulator) list \<times> plot)" where
  "evaluate_with srt lib pred bin gt =
     bind (edge_case_pred pred) (\<lambda>pred'.
     bind (edge_case_bin bin) (\<lambda>bin'.
     evaluate_repaired_with srt lib pred' bin' gt))"

definition evaluate ::
  "segmentation_lib \<Rightarrow> real list \<Rightarrow> bool list \<Rightarrow> bool list \<Rightarrow>
   error + (pred_evaluation \<times> (string \<times> accumulator) list \<times> plot)" where
  "evaluate lib pred bin gt = evaluate_with argsort lib pred bin gt"

text \<open>A sorting routine that is not stable: among equal elements the later position comes
  first.\<close>

definition argsort_last_first :: "real list \<Rightarrow> nat list" where
  "argsort_last_first a = sort_key (\<lambda>i. a ! i) (rev [0..<length a])"

section \<open>The caller's arrays\<close>

text \<open>
  \<^verbatim>\<open>_evaluate_and_plot\<close> receives references to three arrays that its caller goes on
  holding.  The store is the list of the arrays allocated so far, an array's address its
  position; \<^verbatim>\<open>a.copy()\<close> allocates.
\<close>

datatype ndarray = FloatArray "real list" | BoolArray "bool list"

type_synonym store = "ndarray list"

definition np_copy :: "store \<Rightarrow> nat \<Rightarrow> store \<times> nat" where
  "np_copy h a = (h @ [h ! a], length h)"

text \<open>Lines 157--159: \<^verbatim>\<open>if not np.any(pred): pred = pred.copy(); pred[0] = .5\<close>.  The result
  is the store and the array the local name \<^verbatim>\<open>pred\<close> is bound to afterwards.\<close>

definition repair_pred :: "store \<Rightarrow> nat \<Rightarrow> store \<times> (error + nat)" where
  "repair_pred h pred =
     (case h ! pred of
        FloatArray a \<Rightarrow>
          if \<not> any_nonzero a then
            (case np_copy h pred of (h', pred') \<Rightarrow>
              (case setitem0 a (1/2) of
                 Inl e \<Rightarrow> (h', Inl e)
               | Inr a' \<Rightarrow> (h'[pred' := FloatArray a'], Inr pred')))
          else (h, Inr pred)
      | BoolArray _ \<Rightarrow> (h, Inl TypeError))"

text \<open>Lines 160--162: \<^verbatim>\<open>if not np.any(bin_): bin_ = bin_.copy(); bin_[0] = 1\<close>\<close>

definition repair_bin :: "store \<Rightarrow> nat \<Rightarrow> store \<times> (error + nat)" where
  "repair_bin h bin =
     (case h ! bin of
        BoolArray a \<Rightarrow>
          if \<not> any_true a then
            (case np_copy h bin of (h', bin') \<Rightarrow>
              (case setitem0 a True of
                 Inl e \<Rightarrow> (h', Inl e)
               | Inr a' \<Rightarrow> (h'[bin' := BoolArray a'], Inr bin')))
          else (h, Inr bin)
      | FloatArray _ \<Rightarrow> (h, Inl TypeError))"

text \<open>The method on references: the repairs, then lines 164--208 on the arrays the local
  names are bound to.  Everything computed from line 164 on is a new array of the callee
  (\<^verbatim>\<open>precision_recall_curve\<close>, \<^verbatim>\<open>np.append\<close>, \<^verbatim>\<open>np.delete\<close> and the arithmetic all return
  new arrays; line 170 writes into the recall array the routine has just returned).\<close>

definition evaluate_and_plot ::
  "segmentation_lib \<Rightarrow> store \<Rightarrow> nat \<Rightarrow> nat \<Rightarrow> nat \<Rightarrow>
   store \<times> (error + (pred_evaluation \<times> (string \<times> accumulator) list \<times> plot))" where
  "evaluate_and_plot lib h pred bin gt =
     (case repair_pred h pred of
        (h1, Inl e) \<Rightarrow> (h1, Inl e)
      | (h1, Inr pred1) \<Rightarrow>
        (case repair_bin h1 bin of
           (h2, Inl e) \<Rightarrow> (h2, Inl e)
         | (h2, Inr bin1) \<Rightarrow>
           (case (h2 ! pred1, h2 ! bin1, h2 ! gt) of
              (FloatArray pred_a, BoolArray bin_a, BoolArray gt_a) \<Rightarrow>
                (h2, evaluate_repaired lib pred_a bin_a gt_a)
            | _ \<Rightarrow> (h2, Inl TypeError))))"

section \<open>\<^verbatim>\<open>Plot.mean_and_std\<close> (lines 256--283)\<close>

text \<open>The argument \<^verbatim>\<open>interp\<close> is a number of points or a grid.\<close>

datatype interp_arg = Count nat | Grid "real list"

text \<open>\<^verbatim>\<open>np.linspace(0, 1, n)\<close>\<close>

definition linspace01 :: "nat \<Rightarrow> real list" where
  "linspace01 n = map (\<lambda>i. if n = 1 then 0 else real i / real (n - 1)) [0..<n]"

text \<open>
  Modelled from the spec: \<^verbatim>\<open>scipy.interpolate.interp1d\<close> is a library routine and not part
  of the repository.  Section 4.4, step 2: linear interpolation with the curve's own
  (recall, precision) pairs as nodes, and a grid point outside the observed recall range
  is an error.  The routine orders the nodes by recall itself (a stable sort), wants two
  nodes at least and as many ordinates as abscissae, and reads the ordinate of the last
  node at or below the point when the point is a node.
\<close>

definition interp1d :: "real list \<Rightarrow> real list \<Rightarrow> error + (real \<times> real) list" where
  "interp1d x y =
     (if length x \<noteq> length y then Inl (ValueError InconsistentLength)
      else if length x < 2 then Inl (ValueError TooFewEntries)
      else Inr (sort_key fst (zip x y)))"

fun interp_at :: "(real \<times> real) list \<Rightarrow> real \<Rightarrow> real" where
  "interp_at [] x = 0"
| "interp_at [(x0, y0)] x = y0"
| "interp_at ((x0, y0) # (x1, y1) # nodes) x =
     (if x1 \<le> x then interp_at ((x1, y1) # nodes) x
      else if x = x0 then y0
      else (y1 - y0) / (x1 - x0) * (x - x0) + y0)"

definition interp1d_call :: "(real \<times> real) list \<Rightarrow> real list \<Rightarrow> error + real list" where
  "interp1d_call nodes x_new =
     (if \<exists>x\<in>set x_new. x < fst (hd nodes) then Inl (ValueError BelowInterpolationRange)
      else if \<exists>x\<in>set x_new. fst (last nodes) < x then Inl (ValueError AboveInterpolationRange)
      else Inr (map (interp_at nodes) x_new))"

text \<open>Lines 264--269: the list comprehension, left to right; the first exception ends it.\<close>

fun interpolate_all :: "plot list \<Rightarrow> real list \<Rightarrow> error + real list list" where
  "interpolate_all [] interp = Inr []"
| "interpolate_all (plot # plots) interp =
     bind (interp1d (recall plot) (precision plot)) (\<lambda>nodes.
     bind (interp1d_call nodes interp) (\<lambda>row.
     bind (interpolate_all plots interp) (\<lambda>rows.
     Inr (row # rows))))"

text \<open>\<^verbatim>\<open>.mean(0)\<close> and \<^verbatim>\<open>.std(0)\<close> of the stacked rows, each of the grid's length \<open>m\<close>:
  column by column, the standard deviation being the root of the mean squared distance
  to the mean.\<close>

definition column :: "real list list \<Rightarrow> nat \<Rightarrow> real list" where
  "column rows j = map (\<lambda>row. row ! j) rows"

definition mean_of :: "real list \<Rightarrow> real" where
  "mean_of xs = sum_list xs / real (length xs)"

definition std_of :: "real list \<Rightarrow> real" where
  "std_of xs = sqrt (mean_of (map (\<lambda>x. (abs (x - mean_of xs))\<^sup>2) xs))"

definition mean0 :: "real list list \<Rightarrow> nat \<Rightarrow> real list" where
  "mean0 rows m = map (\<lambda>j. mean_of (column rows j)) [0..<m]"

definition std0 :: "real list list \<Rightarrow> nat \<Rightarrow> real list" where
  "std0 rows m = map (\<lambda>j. std_of (column rows j)) [0..<m]"

text \<open>Line 270, \<^verbatim>\<open>np.vstack([plot.bin_point for plot in plots])\<close>: a two-column matrix when
  every curve has its marker, a column of \<^verbatim>\<open>None\<close> objects when none has, an exception
  when the shapes differ.  Line 280, \<^verbatim>\<open>bin_points.mean(0)\<close>: the column means, or
  \<^verbatim>\<open>TypeError\<close> on the objects.\<close>

definition vstack_bin_points :: "(fl \<times> fl) option list \<Rightarrow> error + (fl \<times> fl) list option" where
  "vstack_bin_points bps =
     (if bps = [] then Inl (ValueError EmptySequence)
      else if \<forall>b\<in>set bps. b \<noteq> None then Inr (Some (map the bps))
      else if \<forall>b\<in>set bps. b = None then Inr None
      else Inl (ValueError ShapeMismatch))"

definition fl_mean :: "fl list \<Rightarrow> fl" where
  "fl_mean xs = fl_div_count (foldl fl_add (Fin 0) xs) (length xs)"

definition bin_points_mean :: "(fl \<times> fl) list option \<Rightarrow> error + (fl \<times> fl)" where
  "bin_points_mean m =
     (case m of None \<Rightarrow> Inl TypeError
      | Some rows \<Rightarrow> Inr (fl_mean (map fst rows), fl_mean (map snd rows)))"

text \<open>Lines 258--261: a number of points becomes the evenly spaced grid on \<open>[0, 1]\<close>.\<close>

definition grid_of :: "interp_arg \<Rightarrow> real list" where
  "grid_of interp0 = (case interp0 of Count n \<Rightarrow> linspace01 n | Grid g \<Rightarrow> g)"

definition mean_and_std :: "segmentation_lib \<Rightarrow> plot list \<Rightarrow> interp_arg \<Rightarrow> error + (plot \<times> plot \<times> plot)" where
  "mean_and_std lib plots interp0 =
     (let interp = grid_of interp0 in
      bind (interpolate_all plots interp) (\<lambda>rows.
      if rows = [] then Inl (ValueError EmptySequence)
      else
        bind (vstack_bin_points (map bin_point plots)) (\<lambda>bin_points.
        let mean = mean0 rows (length interp);
            std = std0 rows (length interp)
        in
        bind (argmax (map2 (\<lambda>p r. f_measure lib p r) mean interp)) (\<lambda>idx.
        bind (getitem interp idx) (\<lambda>interp_idx.
        bind (getitem mean idx) (\<lambda>mean_idx.
        bind (bin_points_mean bin_points) (\<lambda>bin_mean.
        bind (Plot interp mean None None (Some (interp_idx, mean_idx)) (Some bin_mean)) (\<lambda>mean_plot.
        bind (Plot interp (map2 (\<lambda>m s. m - s) mean std) None None None None) (\<lambda>lower.
        bind (Plot interp (map2 (\<lambda>m s. m + s) mean std) None None None None) (\<lambda>upper.
        Inr (mean_plot, lower, upper)))))))))))"

section \<open>The metrics of the absent module, as the spec describes them\<close>

text \<open>
  Modelled from the spec: the metric computations of \<^verbatim>\<open>evaluation.segmentation\<close> are not
  part of the repository.  Section 4.1 and the glossary: IoU is \<open>|A \<inter> B| / |A \<union> B|\<close> over
  two boolean arrays, the area under the curve is the trapezoidal integral over the
  points ordered by recall, precision and recall of a mask are the usual ratios of true
  positives, and the F-measure is \<open>2PR / (P + R)\<close>.  They instantiate the parameter
  \<open>segmentation_lib\<close> where a concrete library is wanted.
\<close>

definition count_where :: "(bool \<Rightarrow> bool \<Rightarrow> bool) \<Rightarrow> bool list \<Rightarrow> bool list \<Rightarrow> real" where
  "count_where f gt pred = real (length (filter (\<lambda>(g, p). f g p) (zip gt pred)))"

definition spec_iou :: "bool list \<Rightarrow> bool list \<Rightarrow> error + fl" where
  "spec_iou gt pred =
     (if length gt \<noteq> length pred then Inl (ValueError InconsistentLength)
      else Inr (fdiv (count_where (\<lambda>g p. g \<and> p) gt pred) (count_where (\<lambda>g p. g \<or> p) gt pred)))"

definition spec_precision :: "bool list \<Rightarrow> bool list \<Rightarrow> error + fl" where
  "spec_precision gt pred =
     (if length gt \<noteq> length pred then Inl (ValueError InconsistentLength)
      else Inr (fdiv (count_where (\<lambda>g p. g \<and> p) gt pred) (count_where (\<lambda>g p. p) gt pred)))"

definition spec_recall :: "bool list \<Rightarrow> bool list \<Rightarrow> error + fl" where
  "spec_recall gt pred =
     (if length gt \<noteq> length pred then Inl (ValueError InconsistentLength)
      else Inr (fdiv (count_where (\<lambda>g p. g \<and> p) gt pred) (count_where (\<lambda>g p. g) gt pred)))"

fun trapezoid :: "(real \<times> real) list \<Rightarrow> real" where
  "trapezoid ((x0, y0) # (x1, y1) # nodes) = (x1 - x0) * (y0 + y1) / 2 + trapezoid ((x1, y1) # nodes)"
| "trapezoid _ = 0"

definition spec_auc :: "real list \<Rightarrow> real list \<Rightarrow> error + fl" where
  "spec_auc precisions recalls =
     (if length precisions \<noteq> length recalls then Inl (ValueError InconsistentLength)
      else Inr (Fin (trapezoid (sort_key fst (zip recalls precisions)))))"

definition spec_lib :: segmentation_lib where
  "spec_lib =
     \<lparr> iou_compute = spec_iou, auc_compute = spec_auc,
       binary_metrics = [(''precision'', spec_precision), (''recall'', spec_recall), (''iou'', spec_iou)],
       f_measure = f1_of \<rparr>"

section \<open>Properties of the duplicate-recall suppression\<close>

lemma dedup_curve_unfold:
  "dedup_curve gt pred =
     bind (raw_curve gt pred) (\<lambda>(precisions, recalls, thresholds).
     delete_duplicates precisions recalls thresholds)"
  by (simp add: dedup_curve_def dedup_curve_with_def delete_duplicates_def)

lemma evaluate_repaired_unfold:
  "evaluate_repaired lib pred bin gt = bind (dedup_curve gt pred) (evaluate_curve lib pred bin gt)"
  by (simp add: evaluate_repaired_def evaluate_repaired_with_def dedup_curve_def)

lemma evaluate_unfold:
  "evaluate lib pred bin gt =
     bind (edge_case_pred pred) (\<lambda>pred'.
     bind (edge_case_bin bin) (\<lambda>bin'.
     evaluate_repaired lib pred' bin' gt))"
  by (simp add: evaluate_def evaluate_with_def evaluate_repaired_def)

lemma concat_split_at_unique: "concat (split_at_unique a idx) = idx"
  by (induction a idx rule: split_at_unique.induct) auto

lemma split_at_unique_nonempty: "g \<in> set (split_at_unique a idx) \<Longrightarrow> g \<noteq> []"
  by (induction a idx rule: split_at_unique.induct) auto

lemma split_at_unique_subset: "g \<in> set (split_at_unique a idx) \<Longrightarrow> set g \<subseteq> set idx"
  using concat_split_at_unique[of a idx] by (metis set_concat subsetI UN_I)

lemma sorted_dropWhile_gt:
  fixes f :: "nat \<Rightarrow> real"
  assumes "sorted (map f (i # idx))" "j \<in> set (dropWhile (\<lambda>j. f j = f i) idx)"
  shows "f i < f j"
  using assms
proof (induction idx)
  case Nil
  then show ?case by simp
next
  case (Cons k idx)
  show ?case
  proof (cases "f k = f i")
    case True
    with Cons show ?thesis by auto
  next
    case False
    from Cons.prems(1) have "f i \<le> f k" "\<forall>x\<in>set idx. f k \<le> f x" by auto
    with False Cons.prems(2) show ?thesis by fastforce
  qed
qed

lemma sorted_filter_eq_takeWhile:
  fixes f :: "nat \<Rightarrow> real"
  assumes "sorted (map f (i # idx))"
  shows "filter (\<lambda>j. f j = f i) idx = takeWhile (\<lambda>j. f j = f i) idx"
proof -
  have "filter (\<lambda>j. f j = f i) (dropWhile (\<lambda>j. f j = f i) idx) = []"
    using sorted_dropWhile_gt[OF assms] by (fastforce simp: filter_empty_conv)
  moreover have "filter (\<lambda>j. f j = f i) (takeWhile (\<lambda>j. f j = f i) idx) = takeWhile (\<lambda>j. f j = f i) idx"
    by (simp add: filter_id_conv) (meson set_takeWhileD)
  ultimately show ?thesis
    by (metis append_Nil2 filter_append takeWhile_dropWhile_id)
qed

lemma sorted_dropWhile: "sorted (map f idx) \<Longrightarrow> sorted (map f (dropWhile P idx))"
  by (metis append_take_drop_id dropWhile_eq_drop map_append sorted_append)

lemma split_at_unique_filter:
  "sorted (map (\<lambda>i. a ! i) idx) \<Longrightarrow> g \<in> set (split_at_unique a idx) \<Longrightarrow>
     g = filter (\<lambda>j. a ! j = a ! hd g) idx"
proof (induction a idx rule: split_at_unique.induct)
  case (1 a)
  then show ?case by simp
next
  case (2 a i idx)
  let ?P = "\<lambda>j. a ! j = a ! i"
  show ?case
  proof (cases "g = i # takeWhile ?P idx")
    case True
    then show ?thesis
      using sorted_filter_eq_takeWhile[of "\<lambda>i. a ! i" i idx] "2.prems"(1) by simp
  next
    case False
    with "2.prems" have gin: "g \<in> set (split_at_unique a (dropWhile ?P idx))" by simp
    have srt: "sorted (map (\<lambda>i. a ! i) (dropWhile ?P idx))"
      using "2.prems"(1) sorted_dropWhile[of "\<lambda>i. a ! i" idx ?P] by simp
    from "2.IH"[OF srt gin] have g: "g = filter (\<lambda>j. a ! j = a ! hd g) (dropWhile ?P idx)" .
    have "hd g \<in> set (dropWhile ?P idx)"
      using split_at_unique_subset[OF gin] split_at_unique_nonempty[OF gin] by (meson hd_in_set subsetD)
    then have ne: "a ! i < a ! hd g"
      using sorted_dropWhile_gt[of "\<lambda>i. a ! i" i idx "hd g"] "2.prems"(1) by simp
    have "filter (\<lambda>j. a ! j = a ! hd g) (takeWhile ?P idx) = []"
      using ne by (auto simp: filter_empty_conv dest: set_takeWhileD)
    then have "filter (\<lambda>j. a ! j = a ! hd g) idx = filter (\<lambda>j. a ! j = a ! hd g) (dropWhile ?P idx)"
      by (metis append_Nil filter_append takeWhile_dropWhile_id)
    with g ne show ?thesis by auto
  qed
qed


lemma split_at_unique_group:
  assumes "sorted (map (\<lambda>i. a ! i) idx)" "g \<in> set (split_at_unique a idx)" "i \<in> set g"
  shows "g = filter (\<lambda>j. a ! j = a ! i) idx"
proof -
  from split_at_unique_filter[OF assms(1,2)] have g: "g = filter (\<lambda>j. a ! j = a ! hd g) idx" .
  with assms(3) have "i \<in> set (filter (\<lambda>j. a ! j = a ! hd g) idx)" by simp
  then have "a ! i = a ! hd g" by simp
  with g show ?thesis by simp
qed

lemma split_at_unique_covers:
  assumes "i \<in> set idx"
  shows "\<exists>g\<in>set (split_at_unique a idx). i \<in> set g"
proof -
  from assms have "i \<in> set (concat (split_at_unique a idx))"
    by (simp only: concat_split_at_unique)
  then show ?thesis by auto
qed

lemma last_sort_key:
  fixes f :: "nat \<Rightarrow> real"
  assumes "g \<noteq> []"
  defines "k \<equiv> last (sort_key f g)"
  shows "k \<in> set g" and "\<forall>x\<in>set g. f x \<le> f k" and "k = last (filter (\<lambda>y. f y = f k) g)"
proof -
  let ?s = "sort_key f g"
  have "length ?s \<noteq> 0" using assms(1) by simp
  then have ne: "?s \<noteq> []" by (simp only: length_0_conv not_False_eq_True)
  from append_butlast_last_id[OF ne] obtain bs where s: "?s = bs @ [k]"
    unfolding k_def by metis
  have "set g = set ?s" by simp
  also have "\<dots> = set bs \<union> {k}" by (simp only: s) simp
  finally have setg: "set g = set bs \<union> {k}" .
  then show "k \<in> set g" by simp
  have "sorted (map f ?s)" by (rule sorted_sort_key)
  then have "sorted (map f (bs @ [k]))" by (simp only: s)
  then have "\<forall>x\<in>set bs. f x \<le> f k" by (simp add: sorted_append)
  with setg show "\<forall>x\<in>set g. f x \<le> f k" by auto
  have "filter (\<lambda>y. f y = f k) g = filter (\<lambda>y. f y = f k) ?s"
    by (rule sort_key_stable[symmetric])
  also have "\<dots> = filter (\<lambda>y. f y = f k) bs @ [k]" by (simp only: s) simp
  finally show "k = last (filter (\<lambda>y. f y = f k) g)" by simp
qed

lemma kept_indices_iff:
  assumes "is_argsort r idx" "i < length r"
  shows "i \<in> set (kept_indices idx p r) \<longleftrightarrow>
         i = last (sort_key (\<lambda>j. p ! j) (filter (\<lambda>j. r ! j = r ! i) idx))"
proof -
  let ?g = "filter (\<lambda>j. r ! j = r ! i) idx"
  let ?s = "sort_key (\<lambda>j. p ! j) ?g"
  from assms(1) have srt: "sorted (map (\<lambda>i. r ! i) idx)" and ms: "mset idx = mset [0..<length r]"
    by (auto simp: is_argsort_def)
  from ms have "set idx = set [0..<length r]" by (rule mset_eq_setD)
  then have setidx: "set idx = {0..<length r}" by simp
  have "distinct [0..<length r]" by simp
  with ms have dist: "distinct idx" by (simp only: mset_eq_imp_distinct_iff[OF ms])
  from assms(2) setidx have iin: "i \<in> set idx" by simp
  then have ig: "i \<in> set ?g" by simp
  from split_at_unique_covers[OF iin, of r] obtain g0 where
    g0: "g0 \<in> set (split_at_unique r idx)" "i \<in> set g0" by blast
  from split_at_unique_group[OF srt g0] g0(1) have gin: "?g \<in> set (split_at_unique r idx)" by simp
  have dists: "distinct ?s" using dist by simp
  have "length ?s \<noteq> 0" using ig by (simp add: filter_empty_conv) blast
  then have sne: "?s \<noteq> []" by (simp only: length_0_conv not_False_eq_True)
  from append_butlast_last_id[OF sne] obtain bs k where s: "?s = bs @ [k]" by metis
  then have bl: "butlast ?s = bs" "last ?s = k" by simp_all
  have ins: "i \<in> set ?s" using ig by simp
  have del: "i \<in> set (to_delete_of p (duplicates_of r idx)) \<longleftrightarrow> length ?g > 1 \<and> i \<in> set bs"
  proof
    assume "i \<in> set (to_delete_of p (duplicates_of r idx))"
    then obtain g where g: "g \<in> set (split_at_unique r idx)" "length g > 1"
        "i \<in> set (butlast (sort_key (\<lambda>j. p ! j) g))"
      by (auto simp: to_delete_of_def duplicates_of_def)
    from in_set_butlastD[OF g(3)] have "i \<in> set g" by simp
    with split_at_unique_group[OF srt g(1)] have "g = ?g" by simp
    with g bl show "length ?g > 1 \<and> i \<in> set bs" by simp
  next
    assume "length ?g > 1 \<and> i \<in> set bs"
    with gin bl show "i \<in> set (to_delete_of p (duplicates_of r idx))"
      by (auto simp: to_delete_of_def duplicates_of_def)
  qed
  have kept: "i \<in> set (kept_indices idx p r) \<longleftrightarrow> i \<notin> set (to_delete_of p (duplicates_of r idx))"
    using assms(2) by (simp add: kept_indices_def)
  have len: "length ?g = Suc (length bs)"
  proof -
    have "length ?g = length ?s" by simp
    also have "\<dots> = Suc (length bs)" by (simp only: s) simp
    finally show ?thesis .
  qed
  from ins have ik: "i \<in> set bs \<or> i = k" by (simp only: s) auto
  from dists have nk: "k \<notin> set bs" by (simp only: s) simp
  have "i \<in> set bs \<Longrightarrow> length ?g > 1" using len by (cases bs) auto
  with kept del ik nk bl(2) show ?thesis by auto
qed

lemma is_argsort_set: "is_argsort r idx \<Longrightarrow> set idx = {0..<length r}"
proof -
  assume "is_argsort r idx"
  then have "mset idx = mset [0..<length r]" by (simp add: is_argsort_def)
  then have "set idx = set [0..<length r]" by (rule mset_eq_setD)
  then show ?thesis by simp
qed

lemma duplicates_of_subset: "set (concat (duplicates_of r idx)) \<subseteq> set idx"
proof -
  have "set (concat (duplicates_of r idx)) \<subseteq> set (concat (split_at_unique r idx))"
    by (auto simp: duplicates_of_def)
  then show ?thesis by (simp only: concat_split_at_unique)
qed

lemma to_delete_of_subset: "set (to_delete_of p ds) \<subseteq> set (concat ds)"
proof
  fix x assume "x \<in> set (to_delete_of p ds)"
  then obtain d where d: "d \<in> set ds" "x \<in> set (butlast (sort_key (\<lambda>idx. p ! idx) d))"
    by (auto simp: to_delete_of_def)
  from in_set_butlastD[OF d(2)] have "x \<in> set d" by simp
  with d(1) show "x \<in> set (concat ds)" by auto
qed

lemma delete_duplicates_with_kept:
  assumes "length p = length r" "length t = length r" "is_argsort r idx"
  shows "delete_duplicates_with idx p r t =
    Inr (map (\<lambda>i. p ! i) (kept_indices idx p r), map (\<lambda>i. r ! i) (kept_indices idx p r),
         map (\<lambda>i. t ! i) (kept_indices idx p r))"
proof (cases "duplicates_of r idx = []")
  case True
  then have "kept_indices idx p r = [0..<length r]"
    by (simp add: kept_indices_def to_delete_of_def)
  moreover have "map (\<lambda>i. p ! i) [0..<length r] = p" "map (\<lambda>i. t ! i) [0..<length r] = t"
    "map (\<lambda>i. r ! i) [0..<length r] = r"
    using assms(1,2) by (metis map_nth)+
  ultimately show ?thesis using True by (simp add: delete_duplicates_with_def)
next
  case False
  have bound: "\<forall>i\<in>set (concat (duplicates_of r idx)). i < length r"
    using duplicates_of_subset[of r idx] is_argsort_set[OF assms(3)] by auto
  then have bound2: "\<forall>i\<in>set (to_delete_of p (duplicates_of r idx)). i < length r"
    using to_delete_of_subset[of p "duplicates_of r idx"] by blast
  have nd: "\<And>a::real list. length a = length r \<Longrightarrow>
     np_delete a (to_delete_of p (duplicates_of r idx)) = Inr (map (\<lambda>i. a ! i) (kept_indices idx p r))"
    using bound2 by (auto simp: np_delete_def kept_indices_def)
  have "\<not> (\<exists>i\<in>set (concat (duplicates_of r idx)). length p \<le> i)"
    using bound assms(1) by (simp add: not_le)
  then show ?thesis using False assms(1,2)
    by (simp add: delete_duplicates_with_def Let_def nd bind_def del: set_concat)
qed

lemma kept_indices_lt: "i \<in> set (kept_indices idx p r) \<Longrightarrow> i < length r"
  by (simp add: kept_indices_def)

lemma kept_indices_sorted: "sorted_wrt (<) (kept_indices idx p r)"
  unfolding kept_indices_def by (rule sorted_wrt_filter) (simp add: sorted_wrt_upt)

lemma kept_unique:
  assumes "is_argsort r idx" "v \<in> set r"
  shows "\<exists>!i. i \<in> set (kept_indices idx p r) \<and> r ! i = v"
proof -
  from assms(2) obtain j where j: "j < length r" "r ! j = v" by (auto simp: in_set_conv_nth)
  let ?g = "filter (\<lambda>j. r ! j = v) idx"
  let ?k = "last (sort_key (\<lambda>j. p ! j) ?g)"
  have "j \<in> set ?g" using j is_argsort_set[OF assms(1)] by simp
  then have gne: "?g \<noteq> []" by force
  from last_sort_key(1)[OF gne, of "\<lambda>j. p ! j"] have kg: "?k \<in> set ?g" .
  then have kv: "r ! ?k = v" and klt: "?k < length r"
    using is_argsort_set[OF assms(1)] by auto
  have kin: "?k \<in> set (kept_indices idx p r)"
    using kept_indices_iff[OF assms(1) klt, of p] kv by simp
  show ?thesis
  proof (rule ex1I[of _ ?k])
    show "?k \<in> set (kept_indices idx p r) \<and> r ! ?k = v" using kin kv by simp
  next
    fix i assume i: "i \<in> set (kept_indices idx p r) \<and> r ! i = v"
    then have "i < length r" using kept_indices_lt[of i idx p r] by simp
    from kept_indices_iff[OF assms(1) this, of p] i show "i = ?k" by simp
  qed
qed

lemma kept_max_precision:
  assumes "is_argsort r idx" "i \<in> set (kept_indices idx p r)" "j < length r" "r ! j = r ! i"
  shows "p ! j \<le> p ! i"
proof -
  let ?g = "filter (\<lambda>j. r ! j = r ! i) idx"
  have ilt: "i < length r" using assms(2) by (rule kept_indices_lt)
  have jg: "j \<in> set ?g" using assms(3,4) is_argsort_set[OF assms(1)] by simp
  then have gne: "?g \<noteq> []" by force
  from kept_indices_iff[OF assms(1) ilt, of p] assms(2)
  have "i = last (sort_key (\<lambda>j. p ! j) ?g)" by simp
  with last_sort_key(2)[OF gne, of "\<lambda>j. p ! j"] jg show ?thesis by simp
qed

section \<open>Properties of the per-sample curve\<close>

lemma count_ge_antimono: "s \<le> s' \<Longrightarrow> count_ge lab y sc s' \<le> count_ge lab y sc s"
proof -
  assume le: "s \<le> s'"
  have "\<And>zs :: (bool \<times> real) list. length (filter (\<lambda>(y, x). y = lab \<and> s' \<le> x) zs)
      \<le> length (filter (\<lambda>(y, x). y = lab \<and> s \<le> x) zs)"
  proof -
    fix zs :: "(bool \<times> real) list"
    show "length (filter (\<lambda>(y, x). y = lab \<and> s' \<le> x) zs) \<le> length (filter (\<lambda>(y, x). y = lab \<and> s \<le> x) zs)"
      using le by (induction zs) auto
  qed
  then show ?thesis by (simp add: count_ge_def)
qed

lemma sorted_tps: "sorted (map (count_ge lab y sc) (rev (sort (remdups sc))))"
proof -
  have "sorted_wrt (\<lambda>a b. b \<le> a) (rev (sort (remdups sc)))"
    by (simp add: sorted_wrt_rev)
  then have "sorted_wrt (\<lambda>a b. count_ge lab y sc a \<le> count_ge lab y sc b) (rev (sort (remdups sc)))"
    by (rule sorted_wrt_mono_rel[rotated]) (simp add: count_ge_antimono)
  then show ?thesis by (simp add: sorted_wrt_map sorted_map)
qed

lemma norm_fdiv: "(case fdiv a b of Fin x \<Rightarrow> x | _ \<Rightarrow> 0) = (if b = 0 then 0 else a / b)"
  by (simp add: fdiv_def)

lemma norm_recalls:
  "map (\<lambda>r. case r of Fin x \<Rightarrow> x | _ \<Rightarrow> 0) (rev (take k (map (\<lambda>tp. fdiv (real tp) L) xs)) @ [Fin 0])
     = rev (take k (map (\<lambda>tp. if L = 0 then 0 else real tp / L) xs)) @ [0]"
  by (simp add: rev_map take_map norm_fdiv comp_def)

lemma raw_curve_shape:
  assumes "raw_curve gt pred = Inr (p, r, t)"
  shows "\<exists>k P R T. p = rev (take k P) @ [1] \<and> r = rev (take k R) @ [0] \<and> t = rev (take k T) @ [1]
           \<and> length P = length R \<and> length T = length R \<and> sorted R
           \<and> (\<forall>x\<in>set R. 0 \<le> x) \<and> (\<forall>x\<in>set P. 0 \<le> x)"
proof -
  let ?T = "rev (sort (remdups pred))"
  let ?tps = "map (count_ge True gt pred) ?T"
  let ?fps = "map (count_ge False gt pred) ?T"
  let ?P = "map2 (\<lambda>tp fp. real tp / (real tp + real fp)) ?tps ?fps"
  let ?g = "\<lambda>tp::nat. if real (last ?tps) = 0 then 0 else real tp / real (last ?tps)"
  let ?R = "map ?g ?tps"
  let ?k = "Suc (length (takeWhile (\<lambda>tp. tp < last ?tps) ?tps))"
  from assms have ok: "length gt = length pred" "gt \<noteq> []"
    by (auto simp: raw_curve_def precision_recall_curve_def bind_def split: if_splits)
  from assms ok have p: "p = rev (take ?k ?P) @ [1]" and t: "t = rev (take ?k ?T) @ [1]"
    and r: "r = map (\<lambda>r. case r of Fin x \<Rightarrow> x | _ \<Rightarrow> 0)
                 (rev (take ?k (map (\<lambda>tp. fdiv (real tp) (real (last ?tps))) ?tps)) @ [Fin 0])"
    by (simp_all add: raw_curve_def precision_recall_curve_def bind_def binary_clf_curve_def Let_def)
  have r': "r = rev (take ?k ?R) @ [0]"
    unfolding r by (rule norm_recalls)
  have mono: "\<And>a b::nat. a \<le> b \<Longrightarrow> ?g a \<le> ?g b"
    by (simp add: divide_right_mono)
  have "sorted ?tps" by (rule sorted_tps)
  then have "sorted_wrt (\<lambda>a b. ?g a \<le> ?g b) ?tps"
    by (rule sorted_wrt_mono_rel[rotated]) (use mono in blast)
  then have sR: "sorted ?R" by (simp only: sorted_wrt_map sorted_map)
  have nR: "\<forall>x\<in>set ?R. 0 \<le> x" by auto
  have nP: "\<forall>x\<in>set ?P. 0 \<le> x" by (auto simp: set_zip)
  have "length ?P = length ?R" "length ?T = length ?R" by simp_all
  with p r' t sR nR nP show ?thesis by blast
qed

lemma raw_curve_facts:
  assumes "raw_curve gt pred = Inr (p, r, t)"
  shows "length p = length r" and "length t = length r" and "r \<noteq> []"
    and "last p = 1" and "last r = 0" and "\<forall>x\<in>set p. 0 \<le> x" and "\<forall>x\<in>set r. 0 \<le> x"
    and "sorted_wrt (\<lambda>a b. b \<le> a) r"
proof -
  from raw_curve_shape[OF assms] obtain k P R T where
    s: "p = rev (take k P) @ [1]" "r = rev (take k R) @ [0]" "t = rev (take k T) @ [1]"
      "length P = length R" "length T = length R" "sorted R"
      "\<forall>x\<in>set R. 0 \<le> x" "\<forall>x\<in>set P. 0 \<le> x" by blast
  show "length p = length r" using s(1,2,4) by simp
  show "length t = length r" using s(2,3,5) by simp
  show "r \<noteq> []" using s(2) by simp
  show "last p = 1" using s(1) by simp
  show "last r = 0" using s(2) by simp
  show "\<forall>x\<in>set p. 0 \<le> x" using s(1,8) by (auto dest: in_set_takeD)
  show "\<forall>x\<in>set r. 0 \<le> x" using s(2,7) by (auto dest: in_set_takeD)
  have "sorted (take k R)" using s(6) by (rule sorted_wrt_take)
  moreover have "\<forall>x\<in>set (take k R). 0 \<le> x" using s(7) by (auto dest: in_set_takeD)
  ultimately have "sorted (0 # take k R)" by simp
  then have "sorted (rev r)" using s(2) by simp
  then show "sorted_wrt (\<lambda>a b. b \<le> a) r" by (simp only: sorted_wrt_rev[of "(\<le>)" r])
qed

lemma is_argsort_argsort: "is_argsort a (argsort a)"
  by (simp add: is_argsort_def argsort_def)

lemma dedup_curve_kept:
  assumes "dedup_curve gt pred = Inr (p, r, t)"
  shows "\<exists>p0 r0 t0. raw_curve gt pred = Inr (p0, r0, t0)
          \<and> p = map (\<lambda>i. p0 ! i) (kept_indices (argsort r0) p0 r0)
          \<and> r = map (\<lambda>i. r0 ! i) (kept_indices (argsort r0) p0 r0)
          \<and> t = map (\<lambda>i. t0 ! i) (kept_indices (argsort r0) p0 r0)"
proof -
  from assms obtain p0 r0 t0 where raw: "raw_curve gt pred = Inr (p0, r0, t0)"
    and dd: "delete_duplicates p0 r0 t0 = Inr (p, r, t)"
    by (auto simp: dedup_curve_unfold bind_def split: sum.splits)
  from raw_curve_facts(1,2)[OF raw] have len: "length p0 = length r0" "length t0 = length r0" .
  from delete_duplicates_with_kept[OF len is_argsort_argsort] dd raw show ?thesis
    by (simp add: delete_duplicates_def)
qed

lemma kept_strictly_decreasing:
  assumes "is_argsort r idx" "sorted_wrt (\<lambda>a b. b \<le> a) r"
  shows "sorted_wrt (\<lambda>a b. b < a) (map (\<lambda>i. r ! i) (kept_indices idx p r))"
proof -
  let ?K = "kept_indices idx p r"
  have "sorted_wrt (\<lambda>i j. r ! j < r ! i) ?K"
  proof (rule sorted_wrt_mono_rel[OF _ kept_indices_sorted])
    fix i j assume i: "i \<in> set ?K" and j: "j \<in> set ?K" and lt: "i < j"
    have jl: "j < length r" using j by (rule kept_indices_lt)
    from sorted_wrt_nth_less[OF assms(2) lt jl] have ge: "r ! j \<le> r ! i" .
    have "r ! j \<noteq> r ! i"
    proof
      assume eq: "r ! j = r ! i"
      have "r ! i \<in> set r" using lt jl by simp
      from kept_unique[OF assms(1) this, of p] i j eq lt show False by auto
    qed
    with ge show "r ! j < r ! i" by simp
  qed
  then show ?thesis by (simp add: sorted_wrt_map)
qed

lemma kept_nonempty:
  assumes "is_argsort r idx" "r \<noteq> []"
  shows "kept_indices idx p r \<noteq> []"
proof -
  from assms(2) have "hd r \<in> set r" by simp
  from kept_unique[OF assms(1) this, of p] show ?thesis by auto
qed

lemma kept_positive:
  assumes raw: "raw_curve gt pred = Inr (p0, r0, t0)" and i: "i \<in> set (kept_indices (argsort r0) p0 r0)"
  shows "0 < p0 ! i + r0 ! i"
proof -
  note f = raw_curve_facts[OF raw]
  have il: "i < length r0" using i by (rule kept_indices_lt)
  then have r0: "0 \<le> r0 ! i" using f(7) by simp
  have p0: "0 \<le> p0 ! i" using f(6) il f(1) by simp
  show ?thesis
  proof (cases "r0 ! i = 0")
    case True
    let ?n = "length r0 - 1"
    have nl: "?n < length r0" using f(3) by simp
    have "r0 ! ?n = 0" using f(5) f(3) by (simp add: last_conv_nth)
    with True have "r0 ! ?n = r0 ! i" by simp
    from kept_max_precision[OF is_argsort_argsort i nl this] have "p0 ! ?n \<le> p0 ! i" .
    moreover have "p0 ! ?n = 1" using f(4) f(1) f(3) by (metis last_conv_nth length_0_conv)
    ultimately show ?thesis using True by simp
  next
    case False
    with r0 p0 show ?thesis by simp
  qed
qed

lemma sorted_wrt_gt_distinct: "sorted_wrt (\<lambda>a b. b < a) (xs :: real list) \<Longrightarrow> distinct xs"
  by (induction xs) auto

text \<open>
  Claim C2, as the code has it.  The curve routine returns the points by decreasing recall
  and the suppression keeps their order, so for every sample the recall sequence after
  the suppression step is strictly decreasing (not increasing); no two of its elements
  are equal, and it is not empty.
\<close>

theorem dedup_recalls_strictly_decreasing:
  assumes "dedup_curve gt pred = Inr (precisions, recalls, thresholds)"
  shows "sorted_wrt (\<lambda>a b. b < a) recalls \<and> distinct recalls \<and> recalls \<noteq> []"
proof -
  from dedup_curve_kept[OF assms] obtain p0 r0 t0 where
    raw: "raw_curve gt pred = Inr (p0, r0, t0)" and
    r: "recalls = map (\<lambda>i. r0 ! i) (kept_indices (argsort r0) p0 r0)" by blast
  note f = raw_curve_facts[OF raw]
  have s: "sorted_wrt (\<lambda>a b. b < a) recalls"
    unfolding r by (rule kept_strictly_decreasing[OF is_argsort_argsort f(8)])
  moreover have "recalls \<noteq> []"
    unfolding r using kept_nonempty[OF is_argsort_argsort f(3), of p0] by simp
  ultimately show ?thesis using sorted_wrt_gt_distinct by blast
qed

theorem dedup_recalls_strictly_decreasing_witness:
  "dedup_curve [True, False] [9/10, 1/10] = Inr ([1, 1], [1, 0], [9/10, 1])
   \<and> sorted_wrt (\<lambda>a b. b < a) [1, 0 :: real] \<and> distinct [1, 0 :: real]"
proof -
  have d: "dedup_curve [True, False] [9/10, 1/10] = Inr ([1, 1], [1, 0], [9/10, 1])"
    by code_simp
  from dedup_recalls_strictly_decreasing[OF d] d show ?thesis by blast
qed

text \<open>
  One positive pixel scored \<open>0.9\<close> and one negative pixel scored \<open>0.1\<close>: the recall
  sequence after the suppression step is \<open>[1, 0]\<close>.
\<close>

theorem recalls_not_increasing_counterexample:
  "dedup_curve [True, False] [9/10, 1/10] = Inr ([1, 1], [1, 0], [9/10, 1])
   \<and> \<not> sorted_wrt (<) [1, 0 :: real]"
proof -
  have "dedup_curve [True, False] [9/10, 1/10] = Inr ([1, 1], [1, 0], [9/10, 1])"
    by code_simp
  then show ?thesis by simp
qed

section \<open>Best-F1 selection\<close>



lemma argmax_nonempty: "a \<noteq> [] \<Longrightarrow> \<exists>k. argmax a = Inr k"
  by (cases a) (simp_all add: argmax_def)

lemma update_new_fin:
  "update new_accumulator (Fin v) = \<lparr> count = 1, mean = Fin v, latest = Some (Fin v) \<rparr>"
  by (simp add: update_def new_accumulator_def fl_sub_def fdiv_def)

lemma update_new_latest: "latest (update new_accumulator v) = Some v"
  by (simp add: update_def new_accumulator_def)

lemma update_new_mean: "mean (update new_accumulator v) = v"
  by (cases v) (simp_all add: update_def new_accumulator_def fl_sub_def fdiv_def)

lemma bind_eq_Inr: "bind m f = Inr y \<longleftrightarrow> (\<exists>x. m = Inr x \<and> f x = Inr y)"
  by (cases m) (simp_all add: bind_def)

lemma getitem_eq_Inr: "getitem a i = Inr x \<longleftrightarrow> i < length a \<and> x = a ! i"
  by (auto simp: getitem_def)

lemma Plot_markers:
  assumes "Plot r p t f fp bp = Inr pl"
  shows "threshold pl = t" and "f1_point pl = fp" and "bin_point pl = bp"
    and "f = Some fs \<Longrightarrow> f1 pl = fs"
  using assms by (auto simp: Plot_def bind_eq_Inr split: if_splits option.splits)

lemma dedup_curve_facts:
  assumes "dedup_curve gt pred = Inr (p, r, t)"
  shows "length p = length r" and "length t = length r" and "r \<noteq> []"
    and "\<forall>j<length r. 0 < p ! j + r ! j"
proof -
  from dedup_curve_kept[OF assms] obtain p0 r0 t0 where
    raw: "raw_curve gt pred = Inr (p0, r0, t0)" and
    p: "p = map (\<lambda>i. p0 ! i) (kept_indices (argsort r0) p0 r0)" and
    r: "r = map (\<lambda>i. r0 ! i) (kept_indices (argsort r0) p0 r0)" and
    t: "t = map (\<lambda>i. t0 ! i) (kept_indices (argsort r0) p0 r0)" by blast
  show "length p = length r" "length t = length r" using p r t by simp_all
  show "r \<noteq> []"
    using kept_nonempty[OF is_argsort_argsort raw_curve_facts(3)[OF raw], of p0] r by simp
  show "\<forall>j<length r. 0 < p ! j + r ! j"
  proof (intro allI impI)
    fix j assume "j < length r"
    then have j: "j < length (kept_indices (argsort r0) p0 r0)" using r by simp
    then have "kept_indices (argsort r0) p0 r0 ! j \<in> set (kept_indices (argsort r0) p0 r0)" by simp
    from kept_positive[OF raw this] show "0 < p ! j + r ! j" using j p r by simp
  qed
qed

lemma f1_array_positive:
  assumes "length p = length r" "\<forall>j<length r. 0 < p ! j + r ! j"
  shows "f1_array p r = Inr (map Fin (map2 (\<lambda>p r. 2 * p * r / (p + r)) p r))"
proof -
  have "map2 f1_of p r = map Fin (map2 (\<lambda>p r. 2 * p * r / (p + r)) p r)"
  proof (rule nth_equalityI)
    show "length (map2 f1_of p r) = length (map Fin (map2 (\<lambda>p r. 2 * p * r / (p + r)) p r))" by simp
  next
    fix i assume "i < length (map2 f1_of p r)"
    then have i: "i < length r" "i < length p" using assms(1) by simp_all
    with assms(2) have "p ! i + r ! i \<noteq> 0" by fastforce
    then show "map2 f1_of p r ! i = map Fin (map2 (\<lambda>p r. 2 * p * r / (p + r)) p r) ! i"
      using i by (simp add: f1_of_def fdiv_def)
  qed
  then show ?thesis using assms(1) by (simp add: f1_array_def broadcast2_def)
qed

lemma evaluate_repaired_Inr:
  assumes "evaluate_repaired lib pred bin gt = Inr (pe, be, pl)"
  shows "\<exists>p r t fs idx iou_v auc_v br bp.
      dedup_curve gt pred = Inr (p, r, t) \<and> f1_array p r = Inr fs \<and> argmax fs = Inr idx
    \<and> idx < length fs \<and> idx < length p \<and> idx < length r \<and> idx < length t
    \<and> iou_compute lib gt (map (\<lambda>x. t ! idx \<le> x) pred) = Inr iou_v
    \<and> auc_compute lib p r = Inr auc_v
    \<and> compute_binary (binary_metrics lib) gt bin = Inr be
    \<and> Plot r p (Some t) (Some fs) (Some (r ! idx, p ! idx)) (Some (br, bp)) = Inr pl
    \<and> pe = \<lparr> f1score = update new_accumulator (fs ! idx),
             precision_acc = update new_accumulator (Fin (p ! idx)),
             recall_acc = update new_accumulator (Fin (r ! idx)),
             iou = update new_accumulator iou_v,
             auc = update new_accumulator auc_v \<rparr>"
  using assms unfolding evaluate_repaired_unfold evaluate_curve_def
  by (simp add: bind_eq_Inr getitem_eq_Inr split_paired_all) blast

lemma edge_case_pred_cases: "edge_case_pred pred = Inr pred' \<Longrightarrow>
   (any_nonzero pred \<and> pred' = pred) \<or> (\<not> any_nonzero pred \<and> pred \<noteq> [] \<and> pred' = pred[0 := 1/2])"
  by (auto simp: edge_case_pred_def setitem0_def split: if_splits)



section \<open>The inputs of the caller\<close>

lemma repair_pred_frame:
  assumes "pred < length h" "h ! pred = FloatArray a" "repair_pred h pred = (h1, r)"
  shows "take (length h) h1 = h" and "length h \<le> length h1"
    and "r = (case edge_case_pred a of Inl e \<Rightarrow> Inl e | Inr a' \<Rightarrow> Inr (if any_nonzero a then pred else length h))"
    and "\<And>a' p1. edge_case_pred a = Inr a' \<Longrightarrow> r = Inr p1 \<Longrightarrow> p1 < length h1 \<and> h1 ! p1 = FloatArray a'"
    and "\<not> any_nonzero a \<Longrightarrow> a \<noteq> [] \<Longrightarrow> length h1 = Suc (length h) \<and> h1 ! length h = FloatArray (a[0 := 1/2])"
    and "any_nonzero a \<Longrightarrow> h1 = h"
  using assms
  by (auto simp: repair_pred_def np_copy_def edge_case_pred_def setitem0_def nth_append split: if_splits)

lemma repair_bin_frame:
  assumes "bin < length h" "h ! bin = BoolArray a" "repair_bin h bin = (h1, r)"
  shows "take (length h) h1 = h" and "length h \<le> length h1"
    and "r = (case edge_case_bin a of Inl e \<Rightarrow> Inl e | Inr a' \<Rightarrow> Inr (if any_true a then bin else length h))"
    and "\<And>a' p1. edge_case_bin a = Inr a' \<Longrightarrow> r = Inr p1 \<Longrightarrow> p1 < length h1 \<and> h1 ! p1 = BoolArray a'"
    and "\<not> any_true a \<Longrightarrow> a \<noteq> [] \<Longrightarrow> length h1 = Suc (length h) \<and> h1 ! length h = BoolArray (a[0 := True])"
    and "any_true a \<Longrightarrow> h1 = h"
  using assms
  by (auto simp: repair_bin_def np_copy_def edge_case_bin_def setitem0_def nth_append split: if_splits)

lemma take_frame_nth: "take n h1 = h \<Longrightarrow> i < length h \<Longrightarrow> h1 ! i = h ! i"
  by (metis nth_take length_take min_less_iff_conj)

lemma take_frame_trans:
  assumes "take (length h) h1 = h" "take (length h1) h2 = h1"
  shows "take (length h) h2 = h"
proof -
  have "length h \<le> length h1" using assms(1) by (metis length_take min.cobounded1)
  then have "take (length h) h2 = take (length h) (take (length h1) h2)" by (simp add: min_def)
  with assms show ?thesis by simp
qed

text \<open>
  Claim C4.  The caller holds three arrays in the store and passes their addresses.
  Whatever \<^verbatim>\<open>_evaluate_and_plot\<close> does, returning or raising, every array that was in the
  store before the call is in it unchanged afterwards, the three inputs among them; the
  result is the one computed from the values of the inputs; an all-zero prediction is
  copied to a new address, the copy gets \<open>0.5\<close> at position 0 and the computation runs on
  the copy; an all-false binarised prediction is copied likewise, the copy gets \<open>True\<close> at
  position 0 and the computation runs on it.
\<close>

theorem evaluate_and_plot_frame:
  assumes "pred < length h" and "bin < length h" and "gt < length h"
    and "h ! pred = FloatArray pred_a" and "h ! bin = BoolArray bin_a" and "h ! gt = BoolArray gt_a"
    and "evaluate_and_plot lib h pred bin gt = (h', res)"
  shows "take (length h) h' = h
       \<and> h' ! pred = FloatArray pred_a \<and> h' ! bin = BoolArray bin_a \<and> h' ! gt = BoolArray gt_a
       \<and> res = evaluate lib pred_a bin_a gt_a
       \<and> (\<not> any_nonzero pred_a \<and> pred_a \<noteq> [] \<longrightarrow>
             h' ! length h = FloatArray (pred_a[0 := 1/2])
           \<and> res = bind (edge_case_bin bin_a) (\<lambda>bin'. evaluate_repaired lib (pred_a[0 := 1/2]) bin' gt_a))
       \<and> (\<not> any_true bin_a \<and> bin_a \<noteq> [] \<and> pred_a \<noteq> [] \<longrightarrow>
             (\<exists>c\<ge>length h. c < length h' \<and> h' ! c = BoolArray (bin_a[0 := True]))
           \<and> res = bind (edge_case_pred pred_a) (\<lambda>pred'. evaluate_repaired lib pred' (bin_a[0 := True]) gt_a))"
proof -
  obtain h1 r1 where rp: "repair_pred h pred = (h1, r1)" by (cases "repair_pred h pred")
  note p = repair_pred_frame[OF assms(1,4) rp]
  have frame: "take (length h) h' = h \<and> res = evaluate lib pred_a bin_a gt_a
     \<and> (\<not> any_nonzero pred_a \<and> pred_a \<noteq> [] \<longrightarrow> h' ! length h = FloatArray (pred_a[0 := 1/2]))
     \<and> (\<not> any_true bin_a \<and> bin_a \<noteq> [] \<and> pred_a \<noteq> [] \<longrightarrow>
             (\<exists>c\<ge>length h. c < length h' \<and> h' ! c = BoolArray (bin_a[0 := True])))"
  proof (cases "edge_case_pred pred_a")
    case (Inl e)
    then have e: "e = IndexError" by (auto simp: edge_case_pred_def setitem0_def split: if_splits)
    from Inl p(3) have "r1 = Inl e" by simp
    with assms(7) rp have "h' = h1" "res = Inl e" by (simp_all add: evaluate_and_plot_def)
    moreover have "evaluate lib pred_a bin_a gt_a = Inl e" using Inl by (simp add: evaluate_unfold bind_def)
    moreover have "pred_a = []"
      using Inl by (auto simp: edge_case_pred_def setitem0_def split: if_splits)
    ultimately show ?thesis using p(1) e by simp
  next
    case (Inr pa)
    with p(3) obtain p1 where r1: "r1 = Inr p1" by simp
    from p(4)[OF Inr r1] have p1: "p1 < length h1" "h1 ! p1 = FloatArray pa" by simp_all
    have b1: "bin < length h1" using assms(2) p(2) by simp
    have hb: "h1 ! bin = BoolArray bin_a" using take_frame_nth[OF p(1) assms(2)] assms(5) by simp
    obtain h2 r2 where rb: "repair_bin h1 bin = (h2, r2)" by (cases "repair_bin h1 bin")
    note b = repair_bin_frame[OF b1 hb rb]
    have fr: "take (length h) h2 = h" by (rule take_frame_trans[OF p(1) b(1)])
    have cp: "\<not> any_nonzero pred_a \<and> pred_a \<noteq> [] \<longrightarrow> h2 ! length h = FloatArray (pred_a[0 := 1/2])"
    proof (intro impI)
      assume a: "\<not> any_nonzero pred_a \<and> pred_a \<noteq> []"
      with p(5) have "length h1 = Suc (length h)" "h1 ! length h = FloatArray (pred_a[0 := 1/2])" by simp_all
      then show "h2 ! length h = FloatArray (pred_a[0 := 1/2])"
        using take_frame_nth[OF b(1), of "length h"] by simp
    qed
    show ?thesis
    proof (cases "edge_case_bin bin_a")
      case (Inl e)
      then have e: "e = IndexError" by (auto simp: edge_case_bin_def setitem0_def split: if_splits)
      from Inl b(3) have "r2 = Inl e" by simp
      with assms(7) rp rb r1 have "h' = h2" "res = Inl e" by (simp_all add: evaluate_and_plot_def)
      moreover have "evaluate lib pred_a bin_a gt_a = Inl e"
        using Inl Inr by (simp add: evaluate_unfold bind_def)
      moreover have "bin_a = []"
        using Inl by (auto simp: edge_case_bin_def setitem0_def split: if_splits)
      ultimately show ?thesis using fr cp e by simp
    next
      case (Inr ba)
      with b(3) obtain q1 where r2: "r2 = Inr q1" by simp
      from b(4)[OF Inr r2] have q1: "q1 < length h2" "h2 ! q1 = BoolArray ba" by simp_all
      have "h2 ! p1 = FloatArray pa" using take_frame_nth[OF b(1) p1(1)] p1(2) by simp
      moreover have "h2 ! gt = BoolArray gt_a"
        using take_frame_nth[OF fr assms(3)] assms(6) by simp
      ultimately have "h' = h2" "res = evaluate_repaired lib pa ba gt_a"
        using assms(7) rp rb r1 r2 q1 by (simp_all add: evaluate_and_plot_def)
      moreover have "evaluate lib pred_a bin_a gt_a = evaluate_repaired lib pa ba gt_a"
        using Inr \<open>edge_case_pred pred_a = Inr pa\<close> by (simp add: evaluate_unfold bind_def)
      moreover have "\<not> any_true bin_a \<and> bin_a \<noteq> [] \<longrightarrow>
             (\<exists>c\<ge>length h. c < length h2 \<and> h2 ! c = BoolArray (bin_a[0 := True]))"
      proof (intro impI)
        assume "\<not> any_true bin_a \<and> bin_a \<noteq> []"
        with b(5) have "length h2 = Suc (length h1)" "h2 ! length h1 = BoolArray (bin_a[0 := True])" by simp_all
        with p(2) show "\<exists>c\<ge>length h. c < length h2 \<and> h2 ! c = BoolArray (bin_a[0 := True])"
          by (intro exI[of _ "length h1"]) simp
      qed
      ultimately show ?thesis using fr cp by simp
    qed
  qed
  then have fr: "take (length h) h' = h" and res: "res = evaluate lib pred_a bin_a gt_a" by simp_all
  have i: "h' ! pred = FloatArray pred_a" "h' ! bin = BoolArray bin_a" "h' ! gt = BoolArray gt_a"
    using take_frame_nth[OF fr] assms(1-6) by simp_all
  have e1: "\<not> any_nonzero pred_a \<and> pred_a \<noteq> [] \<longrightarrow>
     res = bind (edge_case_bin bin_a) (\<lambda>bin'. evaluate_repaired lib (pred_a[0 := 1/2]) bin' gt_a)"
    unfolding res by (simp add: evaluate_unfold edge_case_pred_def setitem0_def bind_def)
  have e2: "\<not> any_true bin_a \<and> bin_a \<noteq> [] \<longrightarrow>
     res = bind (edge_case_pred pred_a) (\<lambda>pred'. evaluate_repaired lib pred' (bin_a[0 := True]) gt_a)"
    unfolding res by (simp add: evaluate_unfold edge_case_bin_def setitem0_def bind_def)
  from frame i e1 e2 show ?thesis by blast
qed

theorem evaluate_and_plot_frame_witness:
  "take 3 (fst (evaluate_and_plot spec_lib
       [FloatArray [0, 0], BoolArray [False, False], BoolArray [True, False]] 0 1 2))
     = [FloatArray [0, 0], BoolArray [False, False], BoolArray [True, False]]
   \<and> fst (evaluate_and_plot spec_lib
       [FloatArray [0, 0], BoolArray [False, False], BoolArray [True, False]] 0 1 2) ! 3
     = FloatArray [1/2, 0]
   \<and> snd (evaluate_and_plot spec_lib
       [FloatArray [0, 0], BoolArray [False, False], BoolArray [True, False]] 0 1 2)
     = evaluate spec_lib [0, 0] [False, False] [True, False]"
proof -
  let ?h = "[FloatArray [0, 0], BoolArray [False, False], BoolArray [True, False]]"
  have "evaluate_and_plot spec_lib ?h 0 1 2
      = (fst (evaluate_and_plot spec_lib ?h 0 1 2), snd (evaluate_and_plot spec_lib ?h 0 1 2))"
    by simp
  from evaluate_and_plot_frame[of 0 ?h 1 2 "[0, 0]" "[False, False]" "[True, False]", OF _ _ _ _ _ _ this]
  show ?thesis by (simp add: any_nonzero_def numeral_3_eq_3)
qed

section \<open>A ground truth without positives\<close>

lemma count_ge_no_positive:
  assumes "\<not> any_true gt"
  shows "count_ge True gt pred s = 0"
proof -
  have "\<forall>z\<in>set (zip gt pred). \<not> fst z"
    using assms by (auto simp: any_true_def dest: set_zip_leftD)
  then have "filter (\<lambda>(y, sc). y = True \<and> s \<le> sc) (zip gt pred) = []"
    by (auto simp: filter_empty_conv)
  then show ?thesis by (simp add: count_ge_def)
qed

lemma takeWhile_never: "takeWhile (\<lambda>_. False) xs = []"
  by (cases xs) simp_all

lemma take1: "xs \<noteq> [] \<Longrightarrow> take (Suc 0) xs = [hd xs]"
  by (cases xs) simp_all

lemma take1_map: "xs \<noteq> [] \<Longrightarrow> take (Suc 0) (map f xs) = [f (hd xs)]"
  by (cases xs) simp_all

lemma no_positive_pr_curve:
  assumes "\<not> any_true gt" "length gt = length pred" "pred \<noteq> []"
  shows "precision_recall_curve gt pred
           = Inr ([0, 1], [NaN, Fin 0], [hd (rev (sort (remdups pred)))])"
proof -
  let ?T = "rev (sort (remdups pred))"
  have ne: "?T \<noteq> []" using assms(3) by (metis length_0_conv length_rev length_sort remdups_eq_nil_iff)
  have tps: "map (count_ge True gt pred) ?T = map (\<lambda>_. 0) ?T"
    using count_ge_no_positive[OF assms(1)] by simp
  have l: "last (map (\<lambda>_. 0::nat) ?T) = 0" using ne by (simp add: last_map)
  have tw: "takeWhile (\<lambda>tp. tp < (0::nat)) (map (\<lambda>_. 0) ?T) = []" using ne by (cases ?T) simp_all
  have gne: "gt \<noteq> []" using assms(2,3) by auto
  have z: "zip (map (\<lambda>_. 0::nat) ?T) (map (count_ge False gt pred) ?T)
      = map (\<lambda>s. (0, count_ge False gt pred s)) ?T"
    by (simp add: zip_map_map zip_same_conv_map)
  show ?thesis
    unfolding precision_recall_curve_def binary_clf_curve_def Let_def tps
    using assms(2) gne ne by (simp add: l tw z take1_map take1 takeWhile_never fdiv_def hd_map)
qed

lemma dd_two: "delete_duplicates [0, 1] [0, 0] [th, 1] = Inr ([1], [0], [1])"
  by (simp add: delete_duplicates_def delete_duplicates_with_def argsort_def duplicates_of_def
      to_delete_of_def np_delete_def bind_def upt_rec)

lemma no_positive_dedup_curve:
  assumes "\<not> any_true gt" "length gt = length pred" "pred \<noteq> []"
  shows "dedup_curve gt pred = Inr ([1], [0], [1])"
  by (simp add: dedup_curve_unfold raw_curve_def no_positive_pr_curve[OF assms] bind_def dd_two)

lemma edge_case_pred_length:
  "edge_case_pred pred = Inr pred' \<Longrightarrow> length pred' = length pred \<and> pred' \<noteq> []"
  by (auto simp: edge_case_pred_def setitem0_def any_nonzero_def split: if_splits)

lemma f1_finite:
  assumes "evaluate lib pred bin gt = Inr (pe, be, pl)"
  shows "\<forall>x\<in>set (f1 pl). isfinite x"
proof -
  from assms obtain pred' bin' where
    ev: "evaluate_repaired lib pred' bin' gt = Inr (pe, be, pl)"
    by (auto simp: evaluate_unfold bind_eq_Inr)
  from evaluate_repaired_Inr[OF ev] obtain p r t fs idx br bp where
    d: "dedup_curve gt pred' = Inr (p, r, t)" and fa: "f1_array p r = Inr fs"
    and pl: "Plot r p (Some t) (Some fs) (Some (r ! idx, p ! idx)) (Some (br, bp)) = Inr pl"
    by blast
  note df = dedup_curve_facts[OF d]
  from f1_array_positive[OF df(1) df(4)] fa
  have "fs = map Fin (map2 (\<lambda>p r. 2 * p * r / (p + r)) p r)" by simp
  moreover from Plot_markers(4)[OF pl] have "f1 pl = fs" by simp
  ultimately show ?thesis by auto
qed

text \<open>
  Claim C5, as the code has it.  When the ground truth has no positive pixel, every recall
  of the curve routine is \<open>0/0\<close>; line 170 makes each of them 0, and the deduplicated curve
  is the single point of recall 0, precision 1 and threshold 1, whose F1 is 0.  If the
  metric computations of the absent module raise nothing, \<^verbatim>\<open>_evaluate_and_plot\<close> raises
  nothing: it records F1 0, precision 1 and recall 0, and emits the curve that the
  constructor repairs to two points, of recall \<open>[0, 1]\<close> (not all 0), precision \<open>[1, 0]\<close>
  and F1 \<open>[0]\<close>.  On every curve \<^verbatim>\<open>_evaluate_and_plot\<close> emits, each F1 value is a finite
  number.
\<close>

theorem no_positive_ground_truth:
  assumes "\<not> any_true gt" and "length gt = length pred"
    and "edge_case_pred pred = Inr pred'" and "edge_case_bin bin = Inr bin'"
    and "iou_compute lib gt (map (\<lambda>x. 1 \<le> x) pred') = Inr iou_value"
    and "auc_compute lib [1] [0] = Inr auc_value"
    and "compute_binary (binary_metrics lib) gt bin' = Inr bin_eval"
    and "metric_last bin_eval ''recall'' = Inr bin_recall"
    and "metric_last bin_eval ''precision'' = Inr bin_precision"
  shows "precision_recall_curve gt pred' = Inr ([0, 1], [NaN, Fin 0], [hd (rev (sort (remdups pred')))])
       \<and> raw_curve gt pred' = Inr ([0, 1], [0, 0], [hd (rev (sort (remdups pred'))), 1])
       \<and> dedup_curve gt pred' = Inr ([1], [0], [1])
       \<and> evaluate lib pred bin gt =
           Inr (\<lparr> f1score = \<lparr> count = 1, mean = Fin 0, latest = Some (Fin 0) \<rparr>,
                  precision_acc = \<lparr> count = 1, mean = Fin 1, latest = Some (Fin 1) \<rparr>,
                  recall_acc = \<lparr> count = 1, mean = Fin 0, latest = Some (Fin 0) \<rparr>,
                  iou = update new_accumulator iou_value,
                  auc = update new_accumulator auc_value \<rparr>,
                bin_eval,
                \<lparr> recall = [0, 1], precision = [1, 0], threshold = Some [1], f1 = [Fin 0],
                  f1_point = Some (0, 1), bin_point = Some (bin_recall, bin_precision) \<rparr>)
       \<and> (evaluate lib2 pred2 bin2 gt2 = Inr (pred_eval2, bin_eval2, plot2)
            \<longrightarrow> (\<forall>x\<in>set (f1 plot2). isfinite x))"
proof -
  from edge_case_pred_length[OF assms(3)] assms(2)
  have len: "length gt = length pred'" and ne: "pred' \<noteq> []" by simp_all
  note pr = no_positive_pr_curve[OF assms(1) len ne]
  have raw: "raw_curve gt pred' = Inr ([0, 1], [0, 0], [hd (rev (sort (remdups pred'))), 1])"
    by (simp add: raw_curve_def pr bind_def)
  note dd = no_positive_dedup_curve[OF assms(1) len ne]
  have f: "f1_array [1] [0] = Inr [Fin 0]"
    by (simp add: f1_array_def broadcast2_def f1_of_def fdiv_def)
  have am: "argmax [Fin 0] = Inr 0" by (simp add: argmax_def)
  have pl: "Plot [0] [1] (Some [1]) (Some [Fin 0]) (Some (0, 1)) (Some (bin_recall, bin_precision))
     = Inr \<lparr> recall = [0, 1], precision = [1, 0], threshold = Some [1], f1 = [Fin 0],
                  f1_point = Some (0, 1), bin_point = Some (bin_recall, bin_precision) \<rparr>"
    by (simp add: Plot_def bind_def getitem_def)
  have "evaluate_repaired lib pred' bin' gt =
           Inr (\<lparr> f1score = update new_accumulator (Fin 0),
                  precision_acc = update new_accumulator (Fin 1),
                  recall_acc = update new_accumulator (Fin 0),
                  iou = update new_accumulator iou_value,
                  auc = update new_accumulator auc_value \<rparr>,
                bin_eval,
                \<lparr> recall = [0, 1], precision = [1, 0], threshold = Some [1], f1 = [Fin 0],
                  f1_point = Some (0, 1), bin_point = Some (bin_recall, bin_precision) \<rparr>)"
    unfolding evaluate_repaired_unfold evaluate_curve_def
    by (simp add: dd f am bind_def getitem_def assms(5-9) pl)
  then have ev: "evaluate lib pred bin gt =
           Inr (\<lparr> f1score = \<lparr> count = 1, mean = Fin 0, latest = Some (Fin 0) \<rparr>,
                  precision_acc = \<lparr> count = 1, mean = Fin 1, latest = Some (Fin 1) \<rparr>,
                  recall_acc = \<lparr> count = 1, mean = Fin 0, latest = Some (Fin 0) \<rparr>,
                  iou = update new_accumulator iou_value,
                  auc = update new_accumulator auc_value \<rparr>,
                bin_eval,
                \<lparr> recall = [0, 1], precision = [1, 0], threshold = Some [1], f1 = [Fin 0],
                  f1_point = Some (0, 1), bin_point = Some (bin_recall, bin_precision) \<rparr>)"
    by (simp add: evaluate_unfold assms(3,4) bind_def update_new_fin)
  from pr raw dd ev f1_finite[of lib2 pred2 bin2 gt2 pred_eval2 bin_eval2 plot2] show ?thesis by blast
qed

text \<open>
  Ground truth \<open>[0, 0, 0, 0]\<close> and prediction \<open>[0.1, 0.2, 0.3, 0.4]\<close>: the recall sequence
  of the emitted curve is \<open>[0, 1]\<close>.
\<close>

theorem produced_recall_counterexample:
  "map_sum id (\<lambda>(pred_eval, bin_eval, plot). recall plot)
     (evaluate spec_lib [1/10, 1/5, 3/10, 2/5] [False, False, False, False] [False, False, False, False])
   = Inr [0, 1]"
  by code_simp

theorem no_positive_ground_truth_witness:
  "\<not> any_true [False, False, False, False]
   \<and> length [False, False, False, False] = length [1/10, 1/5, 3/10, 2/5 :: real]
   \<and> edge_case_pred [1/10, 1/5, 3/10, 2/5] = Inr [1/10, 1/5, 3/10, 2/5]
   \<and> edge_case_bin [False, False, False, False] = Inr [True, False, False, False]
   \<and> iou_compute spec_lib [False, False, False, False] (map (\<lambda>x. 1 \<le> x) [1/10, 1/5, 3/10, 2/5 :: real]) = Inr NaN
   \<and> auc_compute spec_lib [1] [0] = Inr (Fin 0)
   \<and> dedup_curve [False, False, False, False] [1/10, 1/5, 3/10, 2/5] = Inr ([1], [0], [1])
   \<and> map_sum id (\<lambda>(pred_eval, bin_eval, plot).
          (mean (f1score pred_eval), mean (recall_acc pred_eval), recall plot, precision plot, f1 plot))
        (evaluate spec_lib [1/10, 1/5, 3/10, 2/5] [False, False, False, False] [False, False, False, False])
      = Inr (Fin 0, Fin 0, [0, 1], [1, 0], [Fin 0])"
proof -
  let ?be = "[(''precision'', update new_accumulator (Fin 0)), (''recall'', update new_accumulator NaN),
              (''iou'', update new_accumulator (Fin 0))]"
  have h1: "\<not> any_true [False, False, False, False]" by (simp add: any_true_def)
  have h2: "length [False, False, False, False] = length [1/10, 1/5, 3/10, 2/5 :: real]" by simp
  have h3: "edge_case_pred [1/10, 1/5, 3/10, 2/5] = Inr [1/10, 1/5, 3/10, 2/5]"
    by (simp add: edge_case_pred_def any_nonzero_def)
  have h4: "edge_case_bin [False, False, False, False] = Inr [True, False, False, False]"
    by (simp add: edge_case_bin_def any_true_def setitem0_def)
  have h5: "iou_compute spec_lib [False, False, False, False] (map (\<lambda>x. 1 \<le> x) [1/10, 1/5, 3/10, 2/5 :: real]) = Inr NaN"
    by (simp add: spec_lib_def spec_iou_def count_where_def fdiv_def)
  have h6: "auc_compute spec_lib [1] [0] = Inr (Fin 0)"
    by (simp add: spec_lib_def spec_auc_def)
  have h7: "compute_binary (binary_metrics spec_lib) [False, False, False, False] [True, False, False, False] = Inr ?be"
    by (simp add: spec_lib_def spec_iou_def spec_precision_def spec_recall_def count_where_def fdiv_def bind_def)
  have h8: "metric_last ?be ''recall'' = Inr NaN"
    by (simp add: metric_last_def last_of_def update_new_latest)
  have h9: "metric_last ?be ''precision'' = Inr (Fin 0)"
    by (simp add: metric_last_def last_of_def update_new_latest)
  note t = no_positive_ground_truth[OF h1 h2 h3 h4 h5 h6 h7 h8 h9]
  from t have d: "dedup_curve [False, False, False, False] [1/10, 1/5, 3/10, 2/5] = Inr ([1], [0], [1])"
    by blast
  from t have "evaluate spec_lib [1/10, 1/5, 3/10, 2/5] [False, False, False, False] [False, False, False, False] =
           Inr (\<lparr> f1score = \<lparr> count = 1, mean = Fin 0, latest = Some (Fin 0) \<rparr>,
                  precision_acc = \<lparr> count = 1, mean = Fin 1, latest = Some (Fin 1) \<rparr>,
                  recall_acc = \<lparr> count = 1, mean = Fin 0, latest = Some (Fin 0) \<rparr>,
                  iou = update new_accumulator NaN,
                  auc = update new_accumulator (Fin 0) \<rparr>,
                ?be,
                \<lparr> recall = [0, 1], precision = [1, 0], threshold = Some [1], f1 = [Fin 0],
                  f1_point = Some (0, 1), bin_point = Some (NaN, Fin 0) \<rparr>)"
    by blast
  then have e: "map_sum id (\<lambda>(pred_eval, bin_eval, plot).
          (mean (f1score pred_eval), mean (recall_acc pred_eval), recall plot, precision plot, f1 plot))
        (evaluate spec_lib [1/10, 1/5, 3/10, 2/5] [False, False, False, False] [False, False, False, False])
      = Inr (Fin 0, Fin 0, [0, 1], [1, 0], [Fin 0])"
    by simp
  from h1 h2 h3 h4 h5 h6 d e show ?thesis by blast
qed

section \<open>The curve invariant and the aggregation of two curves\<close>

lemma f1_array_length: "f1_array p r = Inr fs \<Longrightarrow> length p = length r \<Longrightarrow> length fs = length r"
  by (auto simp: f1_array_def broadcast2_def)

lemma Plot_lengths:
  assumes "Plot r p t f fp bp = Inr pl" and "length p = length r"
  shows "length (recall pl) = length (precision pl)" and "2 \<le> length (recall pl)"
    and "f = None \<Longrightarrow> length (f1 pl) = length r"
    and "2 \<le> length r \<Longrightarrow> recall pl = r \<and> precision pl = p"
    and "length r < 2 \<Longrightarrow> length r = 1 \<and> length (recall pl) = 2"
    and "r \<noteq> []"
proof -
  from assms(1) obtain fs where fs: "(case f of None \<Rightarrow> f1_array p r | Some f \<Rightarrow> Inr f) = Inr fs"
    and rest: "(if length r < 2 then
       bind (getitem r 0) (\<lambda>r0.
       bind (getitem p 0) (\<lambda>p0.
       if r0 \<noteq> 0 then
         Inr \<lparr> recall = [0, r0], precision = [0, p0], threshold = t, f1 = fs,
               f1_point = fp, bin_point = bp \<rparr>
       else
         Inr \<lparr> recall = [0, 1], precision = [p0, 0], threshold = t, f1 = fs,
               f1_point = fp, bin_point = bp \<rparr>))
     else
       Inr \<lparr> recall = r, precision = p, threshold = t, f1 = fs,
             f1_point = fp, bin_point = bp \<rparr>) = Inr pl"
    by (auto simp: Plot_def bind_eq_Inr)
  have f1: "f1 pl = fs"
    using rest by (auto simp: bind_eq_Inr split: if_splits)
  show "length (recall pl) = length (precision pl)"
    using rest assms(2) by (auto simp: bind_eq_Inr split: if_splits)
  show "2 \<le> length (recall pl)"
    using rest by (auto simp: bind_eq_Inr split: if_splits)
  show "f = None \<Longrightarrow> length (f1 pl) = length r"
    using fs f1 f1_array_length[OF _ assms(2)] by simp
  show "2 \<le> length r \<Longrightarrow> recall pl = r \<and> precision pl = p"
    using rest by (auto simp: bind_eq_Inr split: if_splits)
  show ne: "r \<noteq> []"
    using rest by (auto simp: bind_eq_Inr getitem_eq_Inr split: if_splits)
  then have "0 < length r" by simp
  then have "length r < 2 \<Longrightarrow> length r = 1" by linarith
  moreover have "length r < 2 \<Longrightarrow> length (recall pl) = 2"
    using rest by (auto simp: bind_eq_Inr getitem_eq_Inr split: if_splits)
  ultimately show "length r < 2 \<Longrightarrow> length r = 1 \<and> length (recall pl) = 2" by simp
qed

lemma mean_and_std_Inr:
  assumes "mean_and_std lib plots interp0 = Inr (m, lo, up)"
  shows "\<exists>rows bps idx bm.
      interpolate_all plots (grid_of interp0) = Inr rows \<and> rows \<noteq> []
    \<and> vstack_bin_points (map bin_point plots) = Inr bps
    \<and> argmax (map2 (\<lambda>p r. f_measure lib p r) (mean0 rows (length (grid_of interp0))) (grid_of interp0)) = Inr idx
    \<and> idx < length (grid_of interp0)
    \<and> bin_points_mean bps = Inr bm
    \<and> Plot (grid_of interp0) (mean0 rows (length (grid_of interp0))) None None
         (Some (grid_of interp0 ! idx, mean0 rows (length (grid_of interp0)) ! idx)) (Some bm) = Inr m
    \<and> Plot (grid_of interp0)
         (map2 (\<lambda>m s. m - s) (mean0 rows (length (grid_of interp0))) (std0 rows (length (grid_of interp0))))
         None None None None = Inr lo
    \<and> Plot (grid_of interp0)
         (map2 (\<lambda>m s. m + s) (mean0 rows (length (grid_of interp0))) (std0 rows (length (grid_of interp0))))
         None None None None = Inr up"
  using assms unfolding mean_and_std_def Let_def
  by (simp add: bind_eq_Inr getitem_eq_Inr split: if_splits) blast

lemma length_mean0: "length (mean0 rows m) = m" by (simp add: mean0_def)
lemma length_std0: "length (std0 rows m) = m" by (simp add: std0_def)

lemma evaluate_curve_lengths:
  assumes "evaluate lib pred bin gt = Inr (pred_eval, bin_eval, plot)"
  shows "length (recall plot) = length (precision plot) \<and> 2 \<le> length (recall plot)
       \<and> (\<exists>t. threshold plot = Some t \<and> length t = length (f1 plot))
       \<and> (length (f1 plot) = length (recall plot)
            \<or> length (f1 plot) = 1 \<and> length (recall plot) = 2)"
proof -
  from assms obtain pred' bin' where
    ev: "evaluate_repaired lib pred' bin' gt = Inr (pred_eval, bin_eval, plot)"
    by (auto simp: evaluate_unfold bind_eq_Inr)
  from evaluate_repaired_Inr[OF ev] obtain p r t fs idx br bp where
    d: "dedup_curve gt pred' = Inr (p, r, t)" and fa: "f1_array p r = Inr fs"
    and pl: "Plot r p (Some t) (Some fs) (Some (r ! idx, p ! idx)) (Some (br, bp)) = Inr plot"
    by blast
  note df = dedup_curve_facts[OF d]
  note L = Plot_lengths[OF pl df(1)]
  have fl: "length fs = length r" by (rule f1_array_length[OF fa df(1)])
  have f1: "f1 plot = fs" using Plot_markers(4)[OF pl] by simp
  have th: "threshold plot = Some t" by (rule Plot_markers(1)[OF pl])
  have "length (f1 plot) = length (recall plot) \<or> length (f1 plot) = 1 \<and> length (recall plot) = 2"
  proof (cases "2 \<le> length r")
    case True
    with L(4) f1 fl show ?thesis by simp
  next
    case False
    then have "length r < 2" by simp
    with L(5) f1 fl show ?thesis by simp
  qed
  with L(1,2) th f1 fl df(2) show ?thesis by simp
qed

lemma aggregate_curve_lengths:
  assumes "Plot g p None None fp bp = Inr c" "length p = length g"
  shows "length (recall c) = length (precision c) \<and> 2 \<le> length (recall c) \<and> threshold c = None
       \<and> (length (f1 c) = length (recall c) \<or> length (f1 c) = 1 \<and> length (recall c) = 2)"
proof -
  note L = Plot_lengths[OF assms]
  have "length (f1 c) = length (recall c) \<or> length (f1 c) = 1 \<and> length (recall c) = 2"
  proof (cases "2 \<le> length g")
    case True
    with L(3,4) show ?thesis by simp
  next
    case False
    then have "length g < 2" by simp
    with L(3,5) show ?thesis by simp
  qed
  with L(1,2) Plot_markers(1)[OF assms(1)] show ?thesis by simp
qed

text \<open>
  Claim C6, as the code has it.  Every curve emitted by \<^verbatim>\<open>_evaluate_and_plot\<close> and each
  of the three curves returned by \<^verbatim>\<open>Plot.mean_and_std\<close> has recall and precision
  sequences of one length, at least 2.  The F1 sequence, and the threshold sequence of a
  per-sample curve, have that length too unless the constructor repaired a one-point
  curve: then they keep length 1 beside recall and precision of length 2.  The
  aggregated curves carry no threshold sequence.
\<close>

theorem curve_invariant:
  "(evaluate lib pred bin gt = Inr (pred_eval, bin_eval, plot) \<longrightarrow>
       length (recall plot) = length (precision plot) \<and> 2 \<le> length (recall plot)
     \<and> (\<exists>t. threshold plot = Some t \<and> length t = length (f1 plot))
     \<and> (length (f1 plot) = length (recall plot)
          \<or> length (f1 plot) = 1 \<and> length (recall plot) = 2))
 \<and> (mean_and_std lib plots interp = Inr (mean_plot, lower, upper) \<longrightarrow>
       (\<forall>c\<in>{mean_plot, lower, upper}.
           length (recall c) = length (precision c) \<and> 2 \<le> length (recall c)
         \<and> threshold c = None
         \<and> (length (f1 c) = length (recall c) \<or> length (f1 c) = 1 \<and> length (recall c) = 2)))"
proof (intro conjI impI)
  assume "evaluate lib pred bin gt = Inr (pred_eval, bin_eval, plot)"
  from evaluate_curve_lengths[OF this]
  show "length (recall plot) = length (precision plot)" "2 \<le> length (recall plot)"
    "\<exists>t. threshold plot = Some t \<and> length t = length (f1 plot)"
    "length (f1 plot) = length (recall plot) \<or> length (f1 plot) = 1 \<and> length (recall plot) = 2"
    by blast+
next
  assume "mean_and_std lib plots interp = Inr (mean_plot, lower, upper)"
  from mean_and_std_Inr[OF this] obtain rows idx bm where
    m: "Plot (grid_of interp) (mean0 rows (length (grid_of interp))) None None
         (Some (grid_of interp ! idx, mean0 rows (length (grid_of interp)) ! idx)) (Some bm) = Inr mean_plot"
    and lo: "Plot (grid_of interp)
         (map2 (\<lambda>m s. m - s) (mean0 rows (length (grid_of interp))) (std0 rows (length (grid_of interp))))
         None None None None = Inr lower"
    and up: "Plot (grid_of interp)
         (map2 (\<lambda>m s. m + s) (mean0 rows (length (grid_of interp))) (std0 rows (length (grid_of interp))))
         None None None None = Inr upper"
    by blast
  have "length (mean0 rows (length (grid_of interp))) = length (grid_of interp)"
    by (rule length_mean0)
  note a = aggregate_curve_lengths[OF m this]
  have "length (map2 (\<lambda>m s. m - s) (mean0 rows (length (grid_of interp))) (std0 rows (length (grid_of interp))))
      = length (grid_of interp)" by (simp add: length_mean0 length_std0)
  note b = aggregate_curve_lengths[OF lo this]
  have "length (map2 (\<lambda>m s. m + s) (mean0 rows (length (grid_of interp))) (std0 rows (length (grid_of interp))))
      = length (grid_of interp)" by (simp add: length_mean0 length_std0)
  note c = aggregate_curve_lengths[OF up this]
  show "\<forall>c\<in>{mean_plot, lower, upper}.
           length (recall c) = length (precision c) \<and> 2 \<le> length (recall c)
         \<and> threshold c = None
         \<and> (length (f1 c) = length (recall c) \<or> length (f1 c) = 1 \<and> length (recall c) = 2)"
  proof
    fix x assume "x \<in> {mean_plot, lower, upper}"
    then have "x = mean_plot \<or> x = lower \<or> x = upper" by simp
    then show "length (recall x) = length (precision x) \<and> 2 \<le> length (recall x)
         \<and> threshold x = None
         \<and> (length (f1 x) = length (recall x) \<or> length (f1 x) = 1 \<and> length (recall x) = 2)"
    proof (elim disjE)
      assume x: "x = mean_plot" show ?thesis unfolding x by (rule a)
    next
      assume x: "x = lower" show ?thesis unfolding x by (rule b)
    next
      assume x: "x = upper" show ?thesis unfolding x by (rule c)
    qed
  qed
qed

text \<open>
  Ground truth \<open>[0, 0, 0, 0]\<close> and prediction \<open>[0.1, 0.2, 0.3, 0.4]\<close>: the emitted curve has
  two recalls and two precisions, one threshold and one F1 value.
\<close>

theorem curve_invariant_counterexample:
  "map_sum id (\<lambda>(pred_eval, bin_eval, plot).
       (length (recall plot), length (precision plot), map_option length (threshold plot), length (f1 plot)))
     (evaluate spec_lib [1/10, 1/5, 3/10, 2/5] [False, False, False, False] [False, False, False, False])
   = Inr (2, 2, Some 1, 1)"
  by code_simp

lemma argmax_from_bound: "argmax_from mp idx i xs = idx \<or> (i \<le> argmax_from mp idx i xs \<and> argmax_from mp idx i xs < i + length xs)"
proof (induction xs arbitrary: mp idx i)
  case Nil
  then show ?case by simp
next
  case (Cons x xs)
  show ?case
  proof (cases "is_nan mp")
    case True
    then show ?thesis by simp
  next
    case False
    show ?thesis
    proof (cases "fl_le x mp")
      case True
      with False Cons.IH[of mp idx "Suc i"] show ?thesis by auto
    next
      case le: False
      with False Cons.IH[of x i "Suc i"] show ?thesis by auto
    qed
  qed
qed

lemma argmax_lt: "argmax a = Inr k \<Longrightarrow> k < length a"
proof (cases a)
  case Nil
  then show "argmax a = Inr k \<Longrightarrow> k < length a" by (simp add: argmax_def)
next
  case (Cons x xs)
  assume "argmax a = Inr k"
  with Cons have "k = argmax_from x 0 1 xs" by (simp add: argmax_def)
  with argmax_from_bound[of x 0 1 xs] Cons show "k < length a" by auto
qed

lemma argmax_total: "a \<noteq> [] \<Longrightarrow> \<exists>k<length a. argmax a = Inr k"
  using argmax_nonempty[of a] argmax_lt[of a] by blast

lemma sqrt_sixteenth: "sqrt (1/16) = 1/4"
  by (rule real_sqrt_unique) (simp_all add: power2_eq_square)

lemma scenario3_rows:
  assumes "recall c1 = [0, 1]" "precision c1 = [1, 0]" "recall c2 = [0, 1]" "precision c2 = [1/2, 1/2]"
  shows "interpolate_all [c1, c2] [0, 1/2, 1] = Inr [[1, 1/2, 0], [1/2, 1/2, 1/2]]"
  by (simp add: assms interp1d_def interp1d_call_def bind_def)

lemma scenario3_mean: "mean0 [[1, 1/2, 0], [1/2, 1/2, 1/2]] 3 = [3/4, 1/2, 1/4]"
  by (simp add: mean0_def mean_of_def column_def upt_rec)

lemma scenario3_std: "std0 [[1, 1/2, 0], [1/2, 1/2, 1/2]] 3 = [1/4, 0, 1/4]"
  by (simp add: std0_def std_of_def mean_of_def column_def upt_rec power2_eq_square sqrt_sixteenth)

lemma scenario3_mean_and_std:
  assumes "recall c1 = [0, 1]" and "precision c1 = [1, 0]"
    and "recall c2 = [0, 1]" and "precision c2 = [1/2, 1/2]"
    and "bin_point c1 = Some b1" and "bin_point c2 = Some b2"
    and "interp = Grid [0, 1/2, 1] \<or> interp = Count 3"
  shows "grid_of interp = [0, 1/2, 1]"
    and "\<exists>idx<3. mean_and_std lib [c1, c2] interp =
             Inr (\<lparr> recall = [0, 1/2, 1], precision = [3/4, 1/2, 1/4], threshold = None,
                    f1 = [Fin 0, Fin (1/2), Fin (2/5)],
                    f1_point = Some ([0, 1/2, 1] ! idx, [3/4, 1/2, 1/4] ! idx),
                    bin_point = Some (fl_mean [fst b1, fst b2], fl_mean [snd b1, snd b2]) \<rparr>,
                  \<lparr> recall = [0, 1/2, 1], precision = [1/2, 1/2, 0], threshold = None,
                    f1 = [Fin 0, Fin (1/2), Fin 0], f1_point = None, bin_point = None \<rparr>,
                  \<lparr> recall = [0, 1/2, 1], precision = [1, 1/2, 1/2], threshold = None,
                    f1 = [Fin 0, Fin (1/2), Fin (2/3)], f1_point = None, bin_point = None \<rparr>)"
proof -
  have g: "grid_of interp = [0, 1/2, 1]"
    using assms(7) by (auto simp: grid_of_def linspace01_def upt_rec)
  note rows = scenario3_rows[OF assms(1-4)]
  let ?fs = "map2 (\<lambda>p r. f_measure lib p r) [3/4, 1/2, 1/4] [0, 1/2, 1]"
  have "?fs \<noteq> []" by simp
  from argmax_total[OF this] obtain idx where idx: "idx < 3" "argmax ?fs = Inr idx" by auto
  have l3: "length [0, 1/2, 1 :: real] = 3" by simp
  have bp: "vstack_bin_points [bin_point c1, bin_point c2] = Inr (Some [b1, b2])"
    by (simp add: vstack_bin_points_def assms(5,6))
  have p1: "Plot [0, 1/2, 1] [3/4, 1/2, 1/4] None None (Some ([0, 1/2, 1] ! idx, [3/4, 1/2, 1/4] ! idx))
        (Some (fl_mean [fst b1, fst b2], fl_mean [snd b1, snd b2]))
      = Inr \<lparr> recall = [0, 1/2, 1], precision = [3/4, 1/2, 1/4], threshold = None,
                    f1 = [Fin 0, Fin (1/2), Fin (2/5)],
                    f1_point = Some ([0, 1/2, 1] ! idx, [3/4, 1/2, 1/4] ! idx),
                    bin_point = Some (fl_mean [fst b1, fst b2], fl_mean [snd b1, snd b2]) \<rparr>"
    by (simp add: Plot_def f1_array_def broadcast2_def f1_of_def fdiv_def bind_def)
  have p2: "Plot [0, 1/2, 1] [1/2, 1/2, 0] None None None None
      = Inr \<lparr> recall = [0, 1/2, 1], precision = [1/2, 1/2, 0], threshold = None,
                    f1 = [Fin 0, Fin (1/2), Fin 0], f1_point = None, bin_point = None \<rparr>"
    by (simp add: Plot_def f1_array_def broadcast2_def f1_of_def fdiv_def bind_def)
  have p3: "Plot [0, 1/2, 1] [1, 1/2, 1/2] None None None None
      = Inr \<lparr> recall = [0, 1/2, 1], precision = [1, 1/2, 1/2], threshold = None,
                    f1 = [Fin 0, Fin (1/2), Fin (2/3)], f1_point = None, bin_point = None \<rparr>"
    by (simp add: Plot_def f1_array_def broadcast2_def f1_of_def fdiv_def bind_def)
  have ms: "mean_and_std lib [c1, c2] interp =
             Inr (\<lparr> recall = [0, 1/2, 1], precision = [3/4, 1/2, 1/4], threshold = None,
                    f1 = [Fin 0, Fin (1/2), Fin (2/5)],
                    f1_point = Some ([0, 1/2, 1] ! idx, [3/4, 1/2, 1/4] ! idx),
                    bin_point = Some (fl_mean [fst b1, fst b2], fl_mean [snd b1, snd b2]) \<rparr>,
                  \<lparr> recall = [0, 1/2, 1], precision = [1/2, 1/2, 0], threshold = None,
                    f1 = [Fin 0, Fin (1/2), Fin 0], f1_point = None, bin_point = None \<rparr>,
                  \<lparr> recall = [0, 1/2, 1], precision = [1, 1/2, 1/2], threshold = None,
                    f1 = [Fin 0, Fin (1/2), Fin (2/3)], f1_point = None, bin_point = None \<rparr>)"
    unfolding mean_and_std_def Let_def g rows l3
    using idx
    by (simp add: bind_def bp scenario3_mean scenario3_std getitem_def bin_points_mean_def p1 p2 p3)
  show "grid_of interp = [0, 1/2, 1]" by (rule g)
  from idx(1) ms show "\<exists>idx<3. mean_and_std lib [c1, c2] interp =
             Inr (\<lparr> recall = [0, 1/2, 1], precision = [3/4, 1/2, 1/4], threshold = None,
                    f1 = [Fin 0, Fin (1/2), Fin (2/5)],
                    f1_point = Some ([0, 1/2, 1] ! idx, [3/4, 1/2, 1/4] ! idx),
                    bin_point = Some (fl_mean [fst b1, fst b2], fl_mean [snd b1, snd b2]) \<rparr>,
                  \<lparr> recall = [0, 1/2, 1], precision = [1/2, 1/2, 0], threshold = None,
                    f1 = [Fin 0, Fin (1/2), Fin 0], f1_point = None, bin_point = None \<rparr>,
                  \<lparr> recall = [0, 1/2, 1], precision = [1, 1/2, 1/2], threshold = None,
                    f1 = [Fin 0, Fin (1/2), Fin (2/3)], f1_point = None, bin_point = None \<rparr>)"
    by blast
qed



lemma scenario2_evaluate:
  "evaluate spec_lib [1/10, 1/5, 3/10, 2/5] [False, False, False, False] [False, False, False, False]
     = Inr (\<lparr> f1score = \<lparr> count = 1, mean = Fin 0, latest = Some (Fin 0) \<rparr>,
              precision_acc = \<lparr> count = 1, mean = Fin 1, latest = Some (Fin 1) \<rparr>,
              recall_acc = \<lparr> count = 1, mean = Fin 0, latest = Some (Fin 0) \<rparr>,
              iou = \<lparr> count = 1, mean = NaN, latest = Some NaN \<rparr>,
              auc = \<lparr> count = 1, mean = Fin 0, latest = Some (Fin 0) \<rparr> \<rparr>,
            [(''precision'', \<lparr> count = 1, mean = Fin 0, latest = Some (Fin 0) \<rparr>),
             (''recall'', \<lparr> count = 1, mean = NaN, latest = Some NaN \<rparr>),
             (''iou'', \<lparr> count = 1, mean = Fin 0, latest = Some (Fin 0) \<rparr>)],
            \<lparr> recall = [0, 1], precision = [1, 0], threshold = Some [1], f1 = [Fin 0],
              f1_point = Some (0, 1), bin_point = Some (NaN, Fin 0) \<rparr>)"
  by code_simp

theorem curve_invariant_witness:
  "(\<exists>pred_eval bin_eval plot.
      evaluate spec_lib [1/10, 1/5, 3/10, 2/5] [False, False, False, False] [False, False, False, False]
        = Inr (pred_eval, bin_eval, plot)
      \<and> length (recall plot) = length (precision plot) \<and> 2 \<le> length (recall plot))
 \<and> (\<exists>mean_plot lower upper.
      mean_and_std spec_lib
        [\<lparr> recall = [0, 1], precision = [1, 0], threshold = None, f1 = [Fin 0, Fin 0],
           f1_point = None, bin_point = Some (Fin 1, Fin 0) \<rparr>,
         \<lparr> recall = [0, 1], precision = [1/2, 1/2], threshold = None, f1 = [Fin 0, Fin (2/3)],
           f1_point = None, bin_point = Some (Fin 1, Fin (1/2)) \<rparr>]
        (Grid [0, 1/2, 1]) = Inr (mean_plot, lower, upper)
      \<and> (\<forall>c\<in>{mean_plot, lower, upper}.
            length (recall c) = length (precision c) \<and> 2 \<le> length (recall c)))"
proof -
  let ?c1 = "\<lparr> recall = [0, 1], precision = [1, 0], threshold = None, f1 = [Fin 0, Fin 0],
           f1_point = None, bin_point = Some (Fin 1, Fin 0) \<rparr>"
  let ?c2 = "\<lparr> recall = [0, 1], precision = [1/2, 1/2], threshold = None, f1 = [Fin 0, Fin (2/3)],
           f1_point = None, bin_point = Some (Fin 1, Fin (1/2)) \<rparr>"
  have h: "recall ?c1 = [0, 1]" "precision ?c1 = [1, 0]" "recall ?c2 = [0, 1]"
    "precision ?c2 = [1/2, 1/2]" "bin_point ?c1 = Some (Fin 1, Fin 0)"
    "bin_point ?c2 = Some (Fin 1, Fin (1/2))"
    "Grid [0, 1/2, 1] = Grid [0, 1/2, 1] \<or> Grid [0, 1/2, 1] = Count 3"
    by simp_all
  from scenario3_mean_and_std(2)[OF h, of spec_lib] obtain m lo up where
    ms: "mean_and_std spec_lib [?c1, ?c2] (Grid [0, 1/2, 1]) = Inr (m, lo, up)" by blast
  note e = scenario2_evaluate
  from curve_invariant[of spec_lib "[1/10, 1/5, 3/10, 2/5]" "[False, False, False, False]"
      "[False, False, False, False]" _ _ _ "[?c1, ?c2]" "Grid [0, 1/2, 1]" m lo up] e ms
  show ?thesis by blast
qed

section \<open>Grid points outside a curve's recall range\<close>

lemma sorted_hd_Min:
  fixes xs :: "real list"
  assumes "sorted xs" "xs \<noteq> []"
  shows "hd xs = Min (set xs)" and "last xs = Max (set xs)"
proof -
  from assms obtain x ys where xs: "xs = x # ys" by (cases xs) auto
  with assms(1) have "\<forall>y\<in>set xs. x \<le> y" by auto
  then have "Min (set xs) = x" using xs by (intro Min_eqI) auto
  then show "hd xs = Min (set xs)" using xs by simp
  from assms(2) obtain zs z where zs: "xs = zs @ [z]" by (metis rev_exhaust)
  with assms(1) have "\<forall>y\<in>set xs. y \<le> z" by (auto simp: sorted_append)
  then have "Max (set xs) = z" using zs by (intro Max_eqI) auto
  then show "last xs = Max (set xs)" using zs by simp
qed

lemma interp1d_nodes:
  assumes "length r = length p" "2 \<le> length r"
  shows "interp1d r p = Inr (sort_key fst (zip r p))"
    and "sort_key fst (zip r p) \<noteq> []"
    and "fst (hd (sort_key fst (zip r p))) = Min (set r)"
    and "fst (last (sort_key fst (zip r p))) = Max (set r)"
proof -
  let ?n = "sort_key fst (zip r p)"
  show "interp1d r p = Inr ?n" using assms by (simp add: interp1d_def)
  have "length ?n = length r" using assms(1) by simp
  with assms(2) have "length ?n \<noteq> 0" by linarith
  then show ne: "?n \<noteq> []" by (simp only: length_0_conv not_False_eq_True)
  have s: "sorted (map fst ?n)" by (rule sorted_sort_key)
  have "set (map fst ?n) = set (map fst (zip r p))" by simp
  also have "\<dots> = set r" using assms(1) by simp
  finally have st: "set (map fst ?n) = set r" .
  have ne': "map fst ?n \<noteq> []" using ne by simp
  from sorted_hd_Min[OF s ne'] st
  show "fst (hd ?n) = Min (set r)" "fst (last ?n) = Max (set r)" using ne
    by (simp_all add: hd_map last_map)
qed

lemma interp1d_call_cases:
  "interp1d_call nodes grid =
     (if \<exists>x\<in>set grid. x < fst (hd nodes) then Inl (ValueError BelowInterpolationRange)
      else if \<exists>x\<in>set grid. fst (last nodes) < x then Inl (ValueError AboveInterpolationRange)
      else Inr (map (interp_at nodes) grid))"
  by (simp add: interp1d_call_def)

lemma interpolate_all_range:
  assumes "\<forall>pl\<in>set plots. length (recall pl) = length (precision pl) \<and> 2 \<le> length (recall pl)"
  shows "if (\<exists>pl\<in>set plots. \<exists>g\<in>set grid. g < Min (set (recall pl)) \<or> Max (set (recall pl)) < g)
         then interpolate_all plots grid = Inl (ValueError BelowInterpolationRange)
            \<or> interpolate_all plots grid = Inl (ValueError AboveInterpolationRange)
         else \<exists>rows. interpolate_all plots grid = Inr rows"
  using assms
proof (induction plots)
  case Nil
  then show ?case by simp
next
  case (Cons pl plots)
  from Cons.prems have wf: "length (recall pl) = length (precision pl)" "2 \<le> length (recall pl)"
    and wfs: "\<forall>pl\<in>set plots. length (recall pl) = length (precision pl) \<and> 2 \<le> length (recall pl)"
    by auto
  note n = interp1d_nodes[OF wf]
  note IH = Cons.IH[OF wfs]
  let ?nodes = "sort_key fst (zip (recall pl) (precision pl))"
  consider (below) "\<exists>g\<in>set grid. g < Min (set (recall pl))"
    | (above) "\<not> (\<exists>g\<in>set grid. g < Min (set (recall pl)))" "\<exists>g\<in>set grid. Max (set (recall pl)) < g"
    | (inside) "\<not> (\<exists>g\<in>set grid. g < Min (set (recall pl)))" "\<not> (\<exists>g\<in>set grid. Max (set (recall pl)) < g)"
    by blast
  then show ?case
  proof cases
    case below
    then have "interp1d_call ?nodes grid = Inl (ValueError BelowInterpolationRange)"
      by (simp add: interp1d_call_cases n(3))
    then have "interpolate_all (pl # plots) grid = Inl (ValueError BelowInterpolationRange)"
      by (simp add: n(1) bind_def)
    moreover have "\<exists>pl\<in>set (pl # plots). \<exists>g\<in>set grid. g < Min (set (recall pl)) \<or> Max (set (recall pl)) < g"
      using below by auto
    ultimately show ?thesis by simp
  next
    case above
    then have "interp1d_call ?nodes grid = Inl (ValueError AboveInterpolationRange)"
      by (simp add: interp1d_call_cases n(3,4))
    then have "interpolate_all (pl # plots) grid = Inl (ValueError AboveInterpolationRange)"
      by (simp add: n(1) bind_def)
    moreover have "\<exists>pl\<in>set (pl # plots). \<exists>g\<in>set grid. g < Min (set (recall pl)) \<or> Max (set (recall pl)) < g"
      using above by auto
    ultimately show ?thesis by simp
  next
    case inside
    then have "interp1d_call ?nodes grid = Inr (map (interp_at ?nodes) grid)"
      by (simp add: interp1d_call_cases n(3,4))
    then have eq: "interpolate_all (pl # plots) grid =
        bind (interpolate_all plots grid) (\<lambda>rows. Inr (map (interp_at ?nodes) grid # rows))"
      by (simp add: n(1) bind_def)
    have iff: "(\<exists>q\<in>set (pl # plots). \<exists>g\<in>set grid. g < Min (set (recall q)) \<or> Max (set (recall q)) < g)
       \<longleftrightarrow> (\<exists>q\<in>set plots. \<exists>g\<in>set grid. g < Min (set (recall q)) \<or> Max (set (recall q)) < g)"
      using inside by auto
    show ?thesis
    proof (cases "\<exists>q\<in>set plots. \<exists>g\<in>set grid. g < Min (set (recall q)) \<or> Max (set (recall q)) < g")
      case True
      with IH have "interpolate_all plots grid = Inl (ValueError BelowInterpolationRange)
            \<or> interpolate_all plots grid = Inl (ValueError AboveInterpolationRange)" by simp
      then have "interpolate_all (pl # plots) grid = Inl (ValueError BelowInterpolationRange)
            \<or> interpolate_all (pl # plots) grid = Inl (ValueError AboveInterpolationRange)"
        unfolding eq by (auto simp: bind_def)
      with True iff show ?thesis by simp
    next
      case False
      with IH obtain rows where "interpolate_all plots grid = Inr rows" by auto
      then have "\<exists>rows. interpolate_all (pl # plots) grid = Inr rows"
        unfolding eq by (simp add: bind_def)
      with False iff show ?thesis by simp
    qed
  qed
qed

lemma Plot_errors: "Plot r p t f fp bp = Inl e \<Longrightarrow> e = ValueError ShapeMismatch \<or> e = IndexError"
  by (auto simp: Plot_def bind_def f1_array_def broadcast2_def getitem_def
      split: sum.splits option.splits if_splits)

lemma vstack_errors: "vstack_bin_points b = Inl e \<Longrightarrow> e = ValueError ShapeMismatch \<or> e = ValueError EmptySequence"
  by (auto simp: vstack_bin_points_def split: if_splits)

lemma argmax_errors: "argmax a = Inl e \<Longrightarrow> e = ValueError EmptySequence"
  by (auto simp: argmax_def split: list.splits)

lemma getitem_errors: "getitem a i = Inl e \<Longrightarrow> e = IndexError"
  by (auto simp: getitem_def split: if_splits)

lemma bin_points_mean_errors: "bin_points_mean b = Inl e \<Longrightarrow> e = TypeError"
  by (auto simp: bin_points_mean_def split: option.splits)

lemma bind_eq_Inl: "bind m f = Inl e \<longleftrightarrow> m = Inl e \<or> (\<exists>x. m = Inr x \<and> f x = Inl e)"
  by (cases m) (simp_all add: bind_def)

lemma mean_and_std_after_rows:
  assumes "interpolate_all plots (grid_of interp) = Inr rows"
    and "mean_and_std lib plots interp = Inl e"
  shows "e = ValueError EmptySequence \<or> e = ValueError ShapeMismatch \<or> e = IndexError \<or> e = TypeError"
  using assms(2) unfolding mean_and_std_def Let_def assms(1)
  by (auto simp: bind_eq_Inl split: if_splits
      dest: Plot_errors vstack_errors argmax_errors getitem_errors bin_points_mean_errors)

text \<open>
  Claim C7.  For curves with as many precisions as recalls and two points at least (the
  curve invariant), and any grid: \<^verbatim>\<open>Plot.mean_and_std\<close> ends with the interpolation
  routine's range error (a grid point below, or above, the interpolation range) exactly
  when some grid point lies outside the recall range of some input curve.  Nothing is
  extrapolated; and when every curve covers the grid, no range error is raised.
\<close>

theorem out_of_domain_error:
  assumes "\<forall>pl\<in>set plots. length (recall pl) = length (precision pl) \<and> 2 \<le> length (recall pl)"
  shows "(\<exists>pl\<in>set plots. \<exists>g\<in>set (grid_of interp).
            g < Min (set (recall pl)) \<or> Max (set (recall pl)) < g)
     \<longleftrightarrow> (mean_and_std lib plots interp = Inl (ValueError BelowInterpolationRange)
          \<or> mean_and_std lib plots interp = Inl (ValueError AboveInterpolationRange))"
proof
  assume "\<exists>pl\<in>set plots. \<exists>g\<in>set (grid_of interp). g < Min (set (recall pl)) \<or> Max (set (recall pl)) < g"
  with interpolate_all_range[OF assms, of "grid_of interp"]
  have "interpolate_all plots (grid_of interp) = Inl (ValueError BelowInterpolationRange)
      \<or> interpolate_all plots (grid_of interp) = Inl (ValueError AboveInterpolationRange)"
    by simp
  then show "mean_and_std lib plots interp = Inl (ValueError BelowInterpolationRange)
          \<or> mean_and_std lib plots interp = Inl (ValueError AboveInterpolationRange)"
    by (auto simp: mean_and_std_def Let_def bind_def)
next
  assume err: "mean_and_std lib plots interp = Inl (ValueError BelowInterpolationRange)
          \<or> mean_and_std lib plots interp = Inl (ValueError AboveInterpolationRange)"
  show "\<exists>pl\<in>set plots. \<exists>g\<in>set (grid_of interp). g < Min (set (recall pl)) \<or> Max (set (recall pl)) < g"
  proof (rule ccontr)
    assume "\<not> ?thesis"
    with interpolate_all_range[OF assms, of "grid_of interp"]
    obtain rows where "interpolate_all plots (grid_of interp) = Inr rows" by auto
    from mean_and_std_after_rows[OF this] err show False by auto
  qed
qed

theorem out_of_domain_error_witness:
  "length (recall \<lparr> recall = [1, 1/2], precision = [1/2, 1], threshold = None, f1 = [],
                    f1_point = None, bin_point = Some (Fin 1, Fin 1) \<rparr>)
     = length (precision \<lparr> recall = [1, 1/2], precision = [1/2, 1], threshold = None, f1 = [],
                    f1_point = None, bin_point = Some (Fin 1, Fin 1) \<rparr>)
   \<and> grid_of (Count 3) = [0, 1/2, 1]
   \<and> (0::real) < Min (set [1, 1/2])
   \<and> mean_and_std spec_lib
        [\<lparr> recall = [1, 1/2], precision = [1/2, 1], threshold = None, f1 = [],
           f1_point = None, bin_point = Some (Fin 1, Fin 1) \<rparr>] (Count 3)
       = Inl (ValueError BelowInterpolationRange)
   \<and> Min (set [1, 1/2 :: real]) = 1/2 \<and> Max (set [1, 1/2 :: real]) = 1
   \<and> mean_and_std spec_lib
        [\<lparr> recall = [1, 1/2], precision = [1/2, 1], threshold = None, f1 = [],
           f1_point = None, bin_point = Some (Fin 1, Fin 1) \<rparr>] (Grid [1/2, 3/4, 1])
       \<noteq> Inl (ValueError BelowInterpolationRange)
   \<and> mean_and_std spec_lib
        [\<lparr> recall = [1, 1/2], precision = [1/2, 1], threshold = None, f1 = [],
           f1_point = None, bin_point = Some (Fin 1, Fin 1) \<rparr>] (Grid [1/2, 3/4, 1])
       \<noteq> Inl (ValueError AboveInterpolationRange)"
proof -
  let ?c = "\<lparr> recall = [1, 1/2], precision = [1/2, 1], threshold = None, f1 = [],
           f1_point = None, bin_point = Some (Fin 1, Fin 1) \<rparr>"
  have wf: "\<forall>pl\<in>set [?c]. length (recall pl) = length (precision pl) \<and> 2 \<le> length (recall pl)"
    by simp
  have g: "grid_of (Count 3) = [0, 1/2, 1]" by (simp add: grid_of_def linspace01_def upt_rec)
  have out: "\<exists>g\<in>set (grid_of (Count 3)). g < Min (set [1, 1/2 :: real]) \<or> Max (set [1, 1/2 :: real]) < g"
    unfolding g by simp
  have nb: "mean_and_std spec_lib [?c] (Count 3) \<noteq> Inl (ValueError AboveInterpolationRange)"
    by (simp add: mean_and_std_def g interp1d_def interp1d_call_def bind_def)
  from out_of_domain_error[OF wf, of "Count 3" spec_lib] out nb
  have e: "mean_and_std spec_lib [?c] (Count 3) = Inl (ValueError BelowInterpolationRange)"
    by simp
  have inside: "\<not> (\<exists>g\<in>set (grid_of (Grid [1/2, 3/4, 1])). g < Min (set [1, 1/2 :: real]) \<or> Max (set [1, 1/2 :: real]) < g)"
    by (simp add: grid_of_def)
  from out_of_domain_error[OF wf, of "Grid [1/2, 3/4, 1]" spec_lib] inside
  have "mean_and_std spec_lib [?c] (Grid [1/2, 3/4, 1]) \<noteq> Inl (ValueError BelowInterpolationRange)"
    "mean_and_std spec_lib [?c] (Grid [1/2, 3/4, 1]) \<noteq> Inl (ValueError AboveInterpolationRange)"
    by simp_all
  with e g show ?thesis by simp
qed

section \<open>Aggregating copies of one curve\<close>



















section \<open>The suppression step on the curve of a sample\<close>

lemma count_total:
  "length gt = length pred \<Longrightarrow>
     count_ge True gt pred s + count_ge False gt pred s = length (filter (\<lambda>x. s \<le> x) pred)"
  unfolding count_ge_def
  by (induction gt pred rule: list_induct2) auto

lemma total_strict:
  fixes pred :: "real list"
  assumes "s \<in> set pred" "s < s'"
  shows "length (filter (\<lambda>x. s' \<le> x) pred) < length (filter (\<lambda>x. s \<le> x) pred)"
proof -
  let ?xs = "filter (\<lambda>x. s \<le> x) pred"
  have "s \<in> set ?xs" using assms(1) by simp
  moreover have "\<not> s' \<le> s" using assms(2) by simp
  ultimately have "length (filter (\<lambda>x. s' \<le> x) ?xs) < length ?xs" by (rule length_filter_less)
  moreover have "filter (\<lambda>x. s' \<le> x) ?xs = filter (\<lambda>x. s' \<le> x) pred"
    using assms(2) by (auto intro: filter_cong)
  ultimately show ?thesis by simp
qed

lemma total_inj:
  fixes pred :: "real list"
  assumes "s \<in> set pred" "s' \<in> set pred" "s \<noteq> s'"
  shows "length (filter (\<lambda>x. s \<le> x) pred) \<noteq> length (filter (\<lambda>x. s' \<le> x) pred)"
proof (cases "s < s'")
  case True
  from total_strict[OF assms(1) True] show ?thesis by simp
next
  case False
  with assms(3) have "s' < s" by simp
  from total_strict[OF assms(2) this] show ?thesis by simp
qed

lemma map2_same: "map2 f (map a xs) (map b xs) = map (\<lambda>x. f (a x) (b x)) xs"
  by (induction xs) simp_all

lemma rev_take_map: "rev (take k (map f xs)) = map f (rev (take k xs))"
  by (simp add: take_map rev_map)

lemma sorted_le_last:
  fixes xs :: "nat list"
  assumes "sorted xs" "x \<in> set xs"
  shows "x \<le> last xs"
proof -
  from assms(2) have ne: "xs \<noteq> []" by auto
  then obtain ys y where xs: "xs = ys @ [y]" by (metis rev_exhaust)
  with assms show ?thesis by (auto simp: sorted_append)
qed

lemma precision_points:
  "rev (take k (map2 (\<lambda>tp fp. real tp / (real tp + real fp)) (map a T) (map b T))) 
     = map (\<lambda>s. real (a s) / (real (a s) + real (b s))) (rev (take k T))"
  by (simp only: map2_same rev_take_map)

lemma recall_points:
  "rev (take k (map (\<lambda>tp. if real L = 0 then 0 else real tp / real L) (map a T)))
     = map (\<lambda>s. if L = 0 then 0 else real (a s) / real L) (rev (take k T))"
  by (simp add: rev_take_map comp_def)


lemma raw_curve_points:
  assumes "raw_curve gt pred = Inr (p0, r0, t0)"
  shows "\<exists>S L. distinct S \<and> set S \<subseteq> set pred \<and> length gt = length pred
     \<and> p0 = map (\<lambda>s. real (count_ge True gt pred s)
                      / (real (count_ge True gt pred s) + real (count_ge False gt pred s))) S @ [1]
     \<and> r0 = map (\<lambda>s. if L = 0 then 0 else real (count_ge True gt pred s) / real L) S @ [0]
     \<and> (L = 0 \<longrightarrow> (\<forall>s\<in>set S. count_ge True gt pred s = 0))"
proof -
  define T where "T = rev (sort (remdups pred))"
  define tps where "tps = map (count_ge True gt pred) T"
  define fps where "fps = map (count_ge False gt pred) T"
  define L where "L = last tps"
  define k where "k = Suc (length (takeWhile (\<lambda>tp. tp < L) tps))"
  define S where "S = rev (take k T)"
  from assms have ok: "length gt = length pred" "gt \<noteq> []"
    by (auto simp: raw_curve_def precision_recall_curve_def bind_def split: if_splits)
  from assms ok have p: "p0 = rev (take k (map2 (\<lambda>tp fp. real tp / (real tp + real fp)) tps fps)) @ [1]"
    and r: "r0 = map (\<lambda>r. case r of Fin x \<Rightarrow> x | _ \<Rightarrow> 0)
                 (rev (take k (map (\<lambda>tp. fdiv (real tp) (real L)) tps)) @ [Fin 0])"
    unfolding k_def L_def tps_def fps_def T_def
    by (simp_all add: raw_curve_def precision_recall_curve_def bind_def binary_clf_curve_def Let_def)
  have p': "p0 = map (\<lambda>s. real (count_ge True gt pred s)
                      / (real (count_ge True gt pred s) + real (count_ge False gt pred s))) S @ [1]"
    unfolding p tps_def fps_def S_def by (simp only: precision_points)
  have "r0 = rev (take k (map (\<lambda>tp. if real L = 0 then 0 else real tp / real L) tps)) @ [0]"
    unfolding r by (rule norm_recalls)
  then have r': "r0 = map (\<lambda>s. if L = 0 then 0 else real (count_ge True gt pred s) / real L) S @ [0]"
    unfolding tps_def S_def by (simp only: recall_points)
  have d: "distinct S" unfolding S_def T_def by (simp add: distinct_take)
  have sub: "set S \<subseteq> set pred" unfolding S_def T_def by (auto dest: in_set_takeD)
  have st: "sorted tps" unfolding tps_def T_def by (rule sorted_tps)
  have z: "L = 0 \<longrightarrow> (\<forall>s\<in>set S. count_ge True gt pred s = 0)"
  proof (intro impI ballI)
    fix s assume L0: "L = 0" and s: "s \<in> set S"
    then have "s \<in> set T" unfolding S_def by (auto dest: in_set_takeD)
    then have "count_ge True gt pred s \<in> set tps" unfolding tps_def by simp
    from sorted_le_last[OF st this] L0 show "count_ge True gt pred s = 0" unfolding L_def by simp
  qed
  show ?thesis
    by (rule exI[of _ S], rule exI[of _ L]) (use d sub ok(1) p' r' z in blast)
qed

lemma raw_curve_unique_max:
  assumes "raw_curve gt pred = Inr (p0, r0, t0)" "i < length r0"
  shows "\<exists>m<length r0. r0 ! m = r0 ! i \<and> (\<forall>j<length r0. j \<noteq> m \<and> r0 ! j = r0 ! i \<longrightarrow> p0 ! j < p0 ! m)"
proof -
  define tp where "tp s = count_ge True gt pred s" for s
  define fp where "fp s = count_ge False gt pred s" for s
  from raw_curve_points[OF assms(1)] obtain S L where
    d: "distinct S" and sub: "set S \<subseteq> set pred" and len: "length gt = length pred"
    and p: "p0 = map (\<lambda>s. real (tp s) / (real (tp s) + real (fp s))) S @ [1]"
    and r: "r0 = map (\<lambda>s. if L = 0 then 0 else real (tp s) / real L) S @ [0]"
    and z: "L = 0 \<longrightarrow> (\<forall>s\<in>set S. tp s = 0)"
    unfolding tp_def fp_def by blast
  let ?n = "length S"
  have lr: "length r0 = Suc ?n" using r by simp
  have pj: "\<And>j. j < ?n \<Longrightarrow> p0 ! j = real (tp (S ! j)) / (real (tp (S ! j)) + real (fp (S ! j)))"
    unfolding p by (simp add: nth_append)
  have rj: "\<And>j. j < ?n \<Longrightarrow> r0 ! j = (if L = 0 then 0 else real (tp (S ! j)) / real L)"
    unfolding r by (simp add: nth_append)
  have pn: "p0 ! ?n = 1" unfolding p by (simp add: nth_append)
  have rn: "r0 ! ?n = 0" unfolding r by (simp add: nth_append)
  have tot: "\<And>s. tp s + fp s = length (filter (\<lambda>x. s \<le> x) pred)"
    unfolding tp_def fp_def by (rule count_total[OF len])
  show ?thesis
  proof (cases "r0 ! i = 0")
    case True
    have "\<forall>j<length r0. j \<noteq> ?n \<and> r0 ! j = r0 ! i \<longrightarrow> p0 ! j < p0 ! ?n"
    proof (intro allI impI)
      fix j assume j: "j < length r0" and a: "j \<noteq> ?n \<and> r0 ! j = r0 ! i"
      then have jn: "j < ?n" using lr by simp
      with a True rj[OF jn] have "L = 0 \<or> tp (S ! j) = 0" by (auto split: if_splits)
      with z jn have "tp (S ! j) = 0" by auto
      with pj[OF jn] pn show "p0 ! j < p0 ! ?n" by simp
    qed
    moreover have "r0 ! ?n = r0 ! i" using True rn by simp
    moreover have "?n < length r0" using lr by simp
    ultimately show ?thesis by (intro exI[of _ ?n]) (intro conjI)
  next
    case False
    with rn assms(2) lr have i: "i < ?n" by (metis less_SucE)
    with False rj[OF i] have L: "L \<noteq> 0" and ti: "tp (S ! i) \<noteq> 0" by (auto split: if_splits)
    define G where "G = {j. j < length r0 \<and> r0 ! j = r0 ! i}"
    have Gn: "\<And>j. j \<in> G \<Longrightarrow> j < ?n \<and> tp (S ! j) = tp (S ! i)"
    proof -
      fix j assume "j \<in> G"
      then have j: "j < length r0" "r0 ! j = r0 ! i" unfolding G_def by simp_all
      with False rn lr have jn: "j < ?n" by (metis less_SucE)
      from j(2) rj[OF jn] rj[OF i] L have "real (tp (S ! j)) = real (tp (S ! i))" by simp
      with jn show "j < ?n \<and> tp (S ! j) = tp (S ! i)" by simp
    qed
    have inj: "\<And>j j'. j \<in> G \<Longrightarrow> j' \<in> G \<Longrightarrow> j \<noteq> j' \<Longrightarrow> p0 ! j \<noteq> p0 ! j'"
    proof -
      fix j j' assume a: "j \<in> G" "j' \<in> G" "j \<noteq> j'"
      from Gn[OF a(1)] Gn[OF a(2)] have jn: "j < ?n" "j' < ?n"
        and t: "tp (S ! j) = tp (S ! i)" "tp (S ! j') = tp (S ! i)" by simp_all
      have ne: "S ! j \<noteq> S ! j'" using d jn a(3) by (simp add: nth_eq_iff_index_eq)
      have mem: "S ! j \<in> set pred" "S ! j' \<in> set pred" using sub jn by auto
      from total_inj[OF mem ne] tot
      have tne: "tp (S ! j) + fp (S ! j) \<noteq> tp (S ! j') + fp (S ! j')" by simp
      have pos: "0 < real (tp (S ! j)) + real (fp (S ! j))" "0 < real (tp (S ! j')) + real (fp (S ! j'))"
        using t ti by (simp_all add: add_pos_nonneg)
      show "p0 ! j \<noteq> p0 ! j'"
      proof
        assume eq: "p0 ! j = p0 ! j'"
        have e1: "p0 ! j = real (tp (S ! i)) / (real (tp (S ! i)) + real (fp (S ! j)))"
          using pj[OF jn(1)] t(1) by simp
        have e2: "p0 ! j' = real (tp (S ! i)) / (real (tp (S ! i)) + real (fp (S ! j')))"
          using pj[OF jn(2)] t(2) by simp
        from eq e1 e2
        have "real (tp (S ! i)) / (real (tp (S ! i)) + real (fp (S ! j)))
            = real (tp (S ! i)) / (real (tp (S ! i)) + real (fp (S ! j')))" by (simp only:)
        moreover have "real (tp (S ! i)) + real (fp (S ! j)) \<noteq> 0" "real (tp (S ! i)) + real (fp (S ! j')) \<noteq> 0"
          using pos t by simp_all
        moreover have "real (tp (S ! i)) \<noteq> 0" using ti by simp
        ultimately have "real (tp (S ! i)) + real (fp (S ! j)) = real (tp (S ! i)) + real (fp (S ! j'))"
          by (simp add: frac_eq_eq)
        with tne t show False by (metis of_nat_add of_nat_eq_iff)
      qed
    qed
    have fin: "finite G" unfolding G_def by simp
    have iG: "i \<in> G" unfolding G_def using assms(2) by simp
    then have ne: "(\<lambda>j. p0 ! j) ` G \<noteq> {}" by auto
    from Max_in[OF finite_imageI[OF fin] ne] obtain m where
      m: "m \<in> G" "p0 ! m = Max ((\<lambda>j. p0 ! j) ` G)" by auto
    have mx: "\<And>j. j \<in> G \<Longrightarrow> p0 ! j \<le> p0 ! m"
      using m(2) fin by simp
    have "\<forall>j<length r0. j \<noteq> m \<and> r0 ! j = r0 ! i \<longrightarrow> p0 ! j < p0 ! m"
    proof (intro allI impI)
      fix j assume j: "j < length r0" and a: "j \<noteq> m \<and> r0 ! j = r0 ! i"
      then have jG: "j \<in> G" unfolding G_def by simp
      from mx[OF jG] inj[OF jG m(1)] a show "p0 ! j < p0 ! m" by simp
    qed
    moreover from m(1) have "m < length r0" "r0 ! m = r0 ! i" unfolding G_def by simp_all
    ultimately show ?thesis by (intro exI[of _ m]) (intro conjI)
  qed
qed

lemma kept_indices_strict_max:
  assumes a: "is_argsort r idx" and i: "i < length r"
    and m: "m < length r" "r ! m = r ! i"
      "\<forall>j<length r. j \<noteq> m \<and> r ! j = r ! i \<longrightarrow> p ! j < p ! m"
  shows "i \<in> set (kept_indices idx p r) \<longleftrightarrow> i = m"
proof -
  let ?g = "filter (\<lambda>j. r ! j = r ! i) idx"
  let ?k = "last (sort_key (\<lambda>j. p ! j) ?g)"
  have mg: "m \<in> set ?g" using m(1,2) is_argsort_set[OF a] by simp
  then have gne: "?g \<noteq> []" by force
  from last_sort_key(1)[OF gne, of "\<lambda>j. p ! j"] have kg: "?k \<in> set ?g" .
  then have kl: "?k < length r" and kr: "r ! ?k = r ! i" using is_argsort_set[OF a] by auto
  from last_sort_key(2)[OF gne, of "\<lambda>j. p ! j"] mg have le: "p ! m \<le> p ! ?k" by blast
  have "?k = m"
  proof (rule ccontr)
    assume "?k \<noteq> m"
    with m(3) kl kr have "p ! ?k < p ! m" by blast
    with le show False by simp
  qed
  with kept_indices_iff[OF a i, of p] show ?thesis by simp
qed

lemma raw_kept_indices_iff:
  assumes raw: "raw_curve gt pred = Inr (p, r, t)" and a: "is_argsort r idx" and i: "i < length r"
  shows "i \<in> set (kept_indices idx p r) \<longleftrightarrow> (\<forall>j<length r. j \<noteq> i \<and> r ! j = r ! i \<longrightarrow> p ! j < p ! i)"
proof -
  from raw_curve_unique_max[OF raw i] obtain m where
    m: "m < length r" "r ! m = r ! i" "\<forall>j<length r. j \<noteq> m \<and> r ! j = r ! i \<longrightarrow> p ! j < p ! m"
    by blast
  note k = kept_indices_strict_max[OF a i m]
  show ?thesis
  proof
    assume "i \<in> set (kept_indices idx p r)"
    with k have "i = m" by simp
    with m(3) show "\<forall>j<length r. j \<noteq> i \<and> r ! j = r ! i \<longrightarrow> p ! j < p ! i" by simp
  next
    assume s: "\<forall>j<length r. j \<noteq> i \<and> r ! j = r ! i \<longrightarrow> p ! j < p ! i"
    have "i = m"
    proof (rule ccontr)
      assume ne: "i \<noteq> m"
      with m(3) i have "p ! i < p ! m" by simp
      moreover from s m(1,2) ne have "p ! m < p ! i" by simp
      ultimately show False by simp
    qed
    with k show "i \<in> set (kept_indices idx p r)" by simp
  qed
qed

lemma kept_indices_filter:
  "kept_indices idx p r = filter (\<lambda>i. i \<in> set (kept_indices idx p r)) [0..<length r]"
  unfolding kept_indices_def by (rule filter_cong) auto

lemma raw_kept_indices_eq:
  assumes raw: "raw_curve gt pred = Inr (p, r, t)" and a: "is_argsort r idx" and a': "is_argsort r idx'"
  shows "kept_indices idx p r = kept_indices idx' p r"
proof -
  have "filter (\<lambda>i. i \<in> set (kept_indices idx p r)) [0..<length r]
      = filter (\<lambda>i. i \<in> set (kept_indices idx' p r)) [0..<length r]"
  proof (rule filter_cong)
    fix i assume "i \<in> set [0..<length r]"
    then have i: "i < length r" by simp
    show "(i \<in> set (kept_indices idx p r)) = (i \<in> set (kept_indices idx' p r))"
      unfolding raw_kept_indices_iff[OF raw a i] raw_kept_indices_iff[OF raw a' i] ..
  qed simp
  then show ?thesis using kept_indices_filter[of idx p r] kept_indices_filter[of idx' p r] by simp
qed

lemma dedup_curve_with_kept:
  assumes raw: "raw_curve gt pred = Inr (p0, r0, t0)" and a: "is_argsort r0 (srt r0)"
  shows "dedup_curve_with srt gt pred =
           Inr (map (\<lambda>i. p0 ! i) (kept_indices (srt r0) p0 r0),
                map (\<lambda>i. r0 ! i) (kept_indices (srt r0) p0 r0),
                map (\<lambda>i. t0 ! i) (kept_indices (srt r0) p0 r0))"
  using delete_duplicates_with_kept[OF raw_curve_facts(1,2)[OF raw] a]
  by (simp add: dedup_curve_with_def raw bind_def)

lemma dedup_curve_with_independent:
  assumes "\<forall>a. is_argsort a (srt a)" "\<forall>a. is_argsort a (srt' a)"
  shows "dedup_curve_with srt gt pred = dedup_curve_with srt' gt pred"
proof (cases "raw_curve gt pred")
  case (Inl e)
  then show ?thesis by (simp add: dedup_curve_with_def bind_def)
next
  case (Inr c)
  obtain p0 r0 t0 where c: "c = (p0, r0, t0)" by (cases c) auto
  from Inr c have raw: "raw_curve gt pred = Inr (p0, r0, t0)" by simp
  from assms have a: "is_argsort r0 (srt r0)" and a': "is_argsort r0 (srt' r0)" by simp_all
  show ?thesis
    unfolding dedup_curve_with_kept[of gt pred p0 r0 t0 srt, OF raw a]
      dedup_curve_with_kept[of gt pred p0 r0 t0 srt', OF raw a']
      raw_kept_indices_eq[OF raw a a'] ..
qed

lemma is_argsort_argsort_last_first: "is_argsort a (argsort_last_first a)"
  by (simp add: is_argsort_def argsort_last_first_def)

lemma hd_filter_first:
  assumes "i < n" "P i" "\<forall>j<i. \<not> P j"
  shows "hd (filter P [0..<n]) = i"
proof -
  have "[0..<n] = [0..<i] @ i # [Suc i..<n]"
    using assms(1) by (metis le0 upt_add_eq_append upt_conv_Cons add.commute le_add_diff_inverse less_imp_le_nat)
  moreover have "filter P [0..<i] = []" using assms(3) by (simp add: filter_empty_conv)
  ultimately show ?thesis using assms(2) by simp
qed

text \<open>
  Claim C1.  On the raw curve of any ground truth and prediction, and for whatever order
  the sorting routine gives to equal recalls: the three sequences after the suppression
  step are the raw sequences read at one and the same increasing list of positions, so the
  points are deleted from the three of them alike; every recall value of the raw curve is
  the recall of exactly one kept position; a kept position has the greatest precision
  among the positions of its recall.  Two points of one recall never have the same
  precision on a raw curve (they have the same true positives and different numbers of
  pixels at or above their thresholds), so the kept position is the only one of its recall
  and precision, hence the first one.
\<close>

theorem duplicate_recall_suppression:
  assumes "raw_curve gt pred = Inr (precisions, recalls, thresholds)"
    and "is_argsort recalls (srt recalls)"
  shows "dedup_curve_with srt gt pred =
           Inr (map (\<lambda>i. precisions ! i) (kept_indices (srt recalls) precisions recalls),
                map (\<lambda>i. recalls ! i) (kept_indices (srt recalls) precisions recalls),
                map (\<lambda>i. thresholds ! i) (kept_indices (srt recalls) precisions recalls))
       \<and> sorted_wrt (<) (kept_indices (srt recalls) precisions recalls)
       \<and> (\<forall>v\<in>set recalls. \<exists>!i. i \<in> set (kept_indices (srt recalls) precisions recalls) \<and> recalls ! i = v)
       \<and> (\<forall>i\<in>set (kept_indices (srt recalls) precisions recalls).
            i < length recalls
          \<and> (\<forall>j<length recalls. recalls ! j = recalls ! i \<longrightarrow> precisions ! j \<le> precisions ! i)
          \<and> (\<forall>j<length recalls. j \<noteq> i \<and> recalls ! j = recalls ! i \<longrightarrow> precisions ! j < precisions ! i)
          \<and> i = hd (filter (\<lambda>j. recalls ! j = recalls ! i \<and> precisions ! j = precisions ! i)
                      [0..<length recalls]))"
proof -
  let ?K = "kept_indices (srt recalls) precisions recalls"
  have "\<forall>i\<in>set ?K.
            i < length recalls
          \<and> (\<forall>j<length recalls. recalls ! j = recalls ! i \<longrightarrow> precisions ! j \<le> precisions ! i)
          \<and> (\<forall>j<length recalls. j \<noteq> i \<and> recalls ! j = recalls ! i \<longrightarrow> precisions ! j < precisions ! i)
          \<and> i = hd (filter (\<lambda>j. recalls ! j = recalls ! i \<and> precisions ! j = precisions ! i)
                      [0..<length recalls])"
  proof
    fix i assume i: "i \<in> set ?K"
    have il: "i < length recalls" using i by (rule kept_indices_lt)
    from raw_kept_indices_iff[OF assms il] i
    have st: "\<forall>j<length recalls. j \<noteq> i \<and> recalls ! j = recalls ! i \<longrightarrow> precisions ! j < precisions ! i"
      by simp
    have mx: "\<forall>j<length recalls. recalls ! j = recalls ! i \<longrightarrow> precisions ! j \<le> precisions ! i"
      using kept_max_precision[OF assms(2) i] by blast
    have "\<forall>j<i. \<not> (recalls ! j = recalls ! i \<and> precisions ! j = precisions ! i)"
    proof (intro allI impI notI)
      fix j assume j: "j < i" and e: "recalls ! j = recalls ! i \<and> precisions ! j = precisions ! i"
      from j il have "j < length recalls" "j \<noteq> i" by simp_all
      with st e have "precisions ! j < precisions ! i" by blast
      with e show False by simp
    qed
    from hd_filter_first[OF il _ this]
    have "hd (filter (\<lambda>j. recalls ! j = recalls ! i \<and> precisions ! j = precisions ! i)
                      [0..<length recalls]) = i" by simp
    with il mx st
    show "i < length recalls
          \<and> (\<forall>j<length recalls. recalls ! j = recalls ! i \<longrightarrow> precisions ! j \<le> precisions ! i)
          \<and> (\<forall>j<length recalls. j \<noteq> i \<and> recalls ! j = recalls ! i \<longrightarrow> precisions ! j < precisions ! i)
          \<and> i = hd (filter (\<lambda>j. recalls ! j = recalls ! i \<and> precisions ! j = precisions ! i)
                      [0..<length recalls])" by simp
  qed
  with dedup_curve_with_kept[of gt pred precisions recalls thresholds srt, OF assms]
    kept_indices_sorted[of "srt recalls" precisions recalls]
    kept_unique[OF assms(2), of _ precisions]
  show ?thesis by blast
qed

theorem duplicate_recall_suppression_witness:
  "raw_curve [False, True, False, True] [9/10, 4/5, 7/10, 3/5]
     = Inr ([1/2, 1/3, 1/2, 0, 1], [1, 1/2, 1/2, 0, 0], [3/5, 7/10, 4/5, 9/10, 1])
   \<and> is_argsort [1, 1/2, 1/2, 0, 0] (argsort [1, 1/2, 1/2, 0, 0])
   \<and> kept_indices (argsort [1, 1/2, 1/2, 0, 0]) [1/2, 1/3, 1/2, 0, 1] [1, 1/2, 1/2, 0, 0] = [0, 2, 4]
   \<and> dedup_curve_with argsort [False, True, False, True] [9/10, 4/5, 7/10, 3/5]
       = Inr ([1/2, 1/2, 1], [1, 1/2, 0], [3/5, 4/5, 1])"
proof -
  have raw: "raw_curve [False, True, False, True] [9/10, 4/5, 7/10, 3/5]
     = Inr ([1/2, 1/3, 1/2, 0, 1], [1, 1/2, 1/2, 0, 0], [3/5, 7/10, 4/5, 9/10, 1])"
    by code_simp
  have a: "is_argsort [1, 1/2, 1/2, 0, 0] (argsort [1, 1/2, 1/2, 0, 0])"
    by (rule is_argsort_argsort)
  have k: "kept_indices (argsort [1, 1/2, 1/2, 0, 0]) [1/2, 1/3, 1/2, 0, 1] [1, 1/2, 1/2, 0, 0] = [0, 2, 4]"
    by code_simp
  from duplicate_recall_suppression[of _ _ _ _ _ argsort, OF raw a]
  have "dedup_curve_with argsort [False, True, False, True] [9/10, 4/5, 7/10, 3/5] =
           Inr (map (\<lambda>i. [1/2, 1/3, 1/2, 0, 1] ! i) (kept_indices (argsort [1, 1/2, 1/2, 0, 0]) [1/2, 1/3, 1/2, 0, 1] [1, 1/2, 1/2, 0, 0]),
                map (\<lambda>i. [1, 1/2, 1/2, 0, 0] ! i) (kept_indices (argsort [1, 1/2, 1/2, 0, 0]) [1/2, 1/3, 1/2, 0, 1] [1, 1/2, 1/2, 0, 0]),
                map (\<lambda>i. [3/5, 7/10, 4/5, 9/10, 1] ! i) (kept_indices (argsort [1, 1/2, 1/2, 0, 0]) [1/2, 1/3, 1/2, 0, 1] [1, 1/2, 1/2, 0, 0]))"
    by (rule conjunct1)
  then have "dedup_curve_with argsort [False, True, False, True] [9/10, 4/5, 7/10, 3/5]
       = Inr ([1/2, 1/2, 1], [1, 1/2, 0], [3/5, 4/5, 1])"
    unfolding k by simp
  with raw a k show ?thesis by simp
qed

section \<open>Independence from the order of equal recalls\<close>

text \<open>
  Claim C10.  The program is a function of its three arguments but for one step: the order
  \<^verbatim>\<open>np.argsort\<close> gives to equal recalls, which numpy's introsort does not fix.  The result
  of \<^verbatim>\<open>_evaluate_and_plot\<close> does not depend on it: with any two routines that sort in the
  place of \<^verbatim>\<open>np.argsort\<close>, the two evaluation records and the emitted curve are the same,
  and so is an exception.
\<close>

theorem evaluate_sort_independent:
  assumes "\<forall>a. is_argsort a (srt a)" and "\<forall>a. is_argsort a (srt' a)"
  shows "evaluate_with srt lib pred bin gt = evaluate_with srt' lib pred bin gt"
  unfolding evaluate_with_def evaluate_repaired_with_def
  by (simp only: dedup_curve_with_independent[OF assms])

theorem evaluate_sort_independent_witness:
  "(\<forall>a. is_argsort a (argsort a)) \<and> (\<forall>a. is_argsort a (argsort_last_first a))
   \<and> argsort [1, 1/2, 1/2, 0, 0] = [3, 4, 1, 2, 0]
   \<and> argsort_last_first [1, 1/2, 1/2, 0, 0] = [4, 3, 2, 1, 0]
   \<and> evaluate_with argsort spec_lib [9/10, 4/5, 7/10, 3/5] [True, True, True, False] [False, True, False, True]
     = evaluate_with argsort_last_first spec_lib [9/10, 4/5, 7/10, 3/5] [True, True, True, False] [False, True, False, True]"
proof -
  have a: "\<forall>a. is_argsort a (argsort a)" by (simp add: is_argsort_argsort)
  have b: "\<forall>a. is_argsort a (argsort_last_first a)" by (simp add: is_argsort_argsort_last_first)
  have c: "argsort [1, 1/2, 1/2, 0, 0] = [3, 4, 1, 2, 0]" by code_simp
  have d: "argsort_last_first [1, 1/2, 1/2, 0, 0] = [4, 3, 2, 1, 0]" by code_simp
  from evaluate_sort_independent[OF a b] a b c d show ?thesis by blast
qed

end
